theory Spec2Isabelle
  imports Main "HOL-Library.Word"
begin

unbundle bit_operations_syntax

section \<open>The RTMP service detector (service\_rtmp.cc)\<close>

text \<open>
  A shallow embedding of the RTMP detector of the application-id inspector:
  the chunk header readers, the message reassembler, the AMF0 helpers, the
  connect-command parser and the per-packet validator with its two handshake
  state machines.

  A C buffer \<open>(data, size)\<close> is a list of bytes whose length is \<open>size\<close>;
  \<open>data += n; size -= n\<close> is \<open>drop n\<close>.  Every function that reports failure
  through a zero return value yields \<open>None\<close> (or \<open>False\<close>) here.
\<close>

subsection \<open>Constants\<close>

type_synonym u8 = "8 word"

definition RTMP_VER_3 :: u8 where
  "RTMP_VER_3 = 3"

definition RTMP_HANDSHAKE1_SIZE :: nat where
  "RTMP_HANDSHAKE1_SIZE = 1536"

definition RTMP_HANDSHAKE2_SIZE :: nat where
  "RTMP_HANDSHAKE2_SIZE = 1536"

definition RTMP_CHUNK_SIZE :: nat where
  "RTMP_CHUNK_SIZE = 128"

definition RTMP_AMF0_COMMAND_MESSAGE_ID :: u8 where
  "RTMP_AMF0_COMMAND_MESSAGE_ID = 20"

text \<open>The C string literals, without their terminating NUL.\<close>

definition RTMP_COMMAND_TYPE_CONNECT :: "u8 list" where
  "RTMP_COMMAND_TYPE_CONNECT = map of_char ''connect''"

definition RTMP_COMMAND_TYPE_CONNECT_LEN :: nat where
  "RTMP_COMMAND_TYPE_CONNECT_LEN = 7"

definition RTMP_PROPERTY_KEY_SWFURL :: "u8 list" where
  "RTMP_PROPERTY_KEY_SWFURL = map of_char ''swfUrl''"

definition RTMP_PROPERTY_KEY_SWFURL_LEN :: nat where
  "RTMP_PROPERTY_KEY_SWFURL_LEN = 6"

definition RTMP_PROPERTY_KEY_PAGEURL :: "u8 list" where
  "RTMP_PROPERTY_KEY_PAGEURL = map of_char ''pageUrl''"

definition RTMP_PROPERTY_KEY_PAGEURL_LEN :: nat where
  "RTMP_PROPERTY_KEY_PAGEURL_LEN = 7"

definition AMF0_TYPE_NUMBER :: u8 where
  "AMF0_TYPE_NUMBER = 0x00"

definition AMF0_TYPE_BOOLEAN :: u8 where
  "AMF0_TYPE_BOOLEAN = 0x01"

definition AMF0_TYPE_STRING :: u8 where
  "AMF0_TYPE_STRING = 0x02"

definition AMF0_TYPE_OBJECT :: u8 where
  "AMF0_TYPE_OBJECT = 0x03"

definition AMF0_TYPE_OBJECT_END :: u8 where
  "AMF0_TYPE_OBJECT_END = 0x09"

subsection \<open>Per-flow data\<close>

datatype RTMPState =
    RTMP_STATE_INIT
  | RTMP_STATE_SENT_HANDSHAKE0
  | RTMP_STATE_SENDING_HANDSHAKE1
  | RTMP_STATE_SENT_HANDSHAKE1
  | RTMP_STATE_SENDING_HANDSHAKE2
  | RTMP_STATE_SENT_HANDSHAKE2
  | RTMP_STATE_DONE

text \<open>The enumerators' integer values, which the \<open><\<close> tests of the validator compare.\<close>

fun state_num :: "RTMPState \<Rightarrow> nat" where
  "state_num RTMP_STATE_INIT = 0"
| "state_num RTMP_STATE_SENT_HANDSHAKE0 = 1"
| "state_num RTMP_STATE_SENDING_HANDSHAKE1 = 2"
| "state_num RTMP_STATE_SENT_HANDSHAKE1 = 3"
| "state_num RTMP_STATE_SENDING_HANDSHAKE2 = 4"
| "state_num RTMP_STATE_SENT_HANDSHAKE2 = 5"
| "state_num RTMP_STATE_DONE = 6"

text \<open>
  \<open>client_bytes_left\<close> and \<open>server_bytes_left\<close> are \<open>uint16_t\<close>; the code only
  subtracts from them under a guard that keeps the result non-negative, so no
  wrap-around can occur and they are natural numbers here.  The two strings are
  \<open>None\<close> for \<open>nullptr\<close>.
\<close>

record ServiceRTMPData =
  client_state :: RTMPState
  server_state :: RTMPState
  client_bytes_left :: nat
  server_bytes_left :: nat
  swfUrl :: "u8 list option"
  pageUrl :: "u8 list option"

subsection \<open>Chunk basic header\<close>

text \<open>
  The result is paired with the offsets of \<open>data\<close> that the function dereferences,
  in source order.  For raw id 1 the chunk stream id is computed from \<open>data[2]\<close>
  and \<open>data[1]\<close> before \<open>size\<close> is compared with 3; the value is only returned
  when the comparison succeeds.
\<close>

definition parse_rtmp_chunk_basic_header ::
  "u8 list \<Rightarrow> nat list \<times> (u8 \<times> nat \<times> u8 list) option" where
  "parse_rtmp_chunk_basic_header data =
     (if length data < 1 then ([], None)
      else
        let format = drop_bit 6 (data ! 0 AND 0xC0);
            chunk_stream_id = unat (data ! 0 AND 0x3F)
        in
          if chunk_stream_id = 0 then
            (if length data < 2 then ([0, 0], None)
             else ([0, 0, 1], Some (format, unat (data ! 1) + 64, drop 2 data)))
          else if chunk_stream_id = 1 then
            (if length data < 3 then ([0, 0, 2, 1], None)
             else ([0, 0, 2, 1],
                   Some (format, unat (data ! 2) * 256 + unat (data ! 1) + 64, drop 3 data)))
          else ([0, 0], Some (format, chunk_stream_id, drop 1 data)))"

text \<open>The prefix length that the low six bits of the first byte announce.\<close>

definition basic_header_len :: "u8 \<Rightarrow> nat" where
  "basic_header_len b =
     (if b AND 0x3F = 0 then 2 else if b AND 0x3F = 1 then 3 else 1)"

subsection \<open>Chunk message header\<close>

text \<open>
  Yields the chunk stream id, the 24-bit message length, the message type id and
  the rest of the buffer.  Only formats 0 and 1 carry a length and a type.
\<close>

definition parse_rtmp_message_header ::
  "u8 list \<Rightarrow> (nat \<times> nat \<times> u8 \<times> u8 list) option" where
  "parse_rtmp_message_header data0 =
     (case snd (parse_rtmp_chunk_basic_header data0) of
        None \<Rightarrow> None
      | Some (fmt, chunk_stream_id, data) \<Rightarrow>
          (case (if fmt = 0 then Some 11 else if fmt = 1 then Some 7 else None) of
             None \<Rightarrow> None
           | Some hdr_len \<Rightarrow>
               if length data < hdr_len then None
               else Some (chunk_stream_id,
                          push_bit 16 (unat (data ! 3)) + push_bit 8 (unat (data ! 4))
                            + unat (data ! 5),
                          data ! 6,
                          drop hdr_len data)))"

subsection \<open>Message reassembly\<close>

text \<open>
  The loop of \<open>unchunk_rtmp_message_body\<close>.  \<open>message_body\<close> is the part of the
  destination buffer written so far; on success it holds exactly the announced
  number of bytes.
\<close>

function unchunk_rtmp_message_body ::
  "u8 list \<Rightarrow> nat \<Rightarrow> nat \<Rightarrow> u8 list \<Rightarrow> (u8 list \<times> u8 list) option" where
  "unchunk_rtmp_message_body data chunk_stream_id message_length message_body =
     (if message_length > 0 then
        let chunk_len = (if message_length > RTMP_CHUNK_SIZE then RTMP_CHUNK_SIZE
                         else message_length)
        in
          if length data < chunk_len then None
          else
            let message_body' = message_body @ take chunk_len data;
                data' = drop chunk_len data;
                message_length' = message_length - chunk_len
            in
              if message_length' > 0 then
                (case snd (parse_rtmp_chunk_basic_header data') of
                   None \<Rightarrow> None
                 | Some (fmt, csid, data'') \<Rightarrow>
                     if fmt \<noteq> 3 then None
                     else if csid \<noteq> chunk_stream_id then None
                     else unchunk_rtmp_message_body data'' chunk_stream_id
                            message_length' message_body')
              else unchunk_rtmp_message_body data' chunk_stream_id
                     message_length' message_body'
      else Some (message_body, data))"
  by pat_completeness auto
termination
  by (relation "measure (\<lambda>(data, chunk_stream_id, message_length, message_body).
        message_length)")
     (auto simp: RTMP_CHUNK_SIZE_def)

declare unchunk_rtmp_message_body.simps [simp del]

subsection \<open>AMF0 helpers\<close>

text \<open>
  \<open>duplicate_string\<close> returns the copied bytes (the C string without its added
  NUL) and the rest of the buffer; \<open>None\<close> is the \<open>nullptr\<close> return.
\<close>

definition duplicate_string :: "u8 list \<Rightarrow> (u8 list \<times> u8 list) option" where
  "duplicate_string data0 =
     (if length data0 < 1 + 2 then None
      else if data0 ! 0 \<noteq> AMF0_TYPE_STRING then None
      else
        let field_len = push_bit 8 (unat (data0 ! 1)) + unat (data0 ! 2) in
          if field_len = 0 then None
          else
            let data = drop (1 + 2) data0 in
              if length data < field_len then None
              else Some (take field_len data, drop field_len data))"

definition skip_property_value :: "u8 list \<Rightarrow> u8 list option" where
  "skip_property_value data0 =
     (if length data0 < 1 then None
      else
        let type = data0 ! 0;
            data = drop 1 data0
        in
          if type = AMF0_TYPE_NUMBER then
            (if length data < 8 then None else Some (drop 8 data))
          else if type = AMF0_TYPE_BOOLEAN then
            (if length data < 1 then None else Some (drop 1 data))
          else if type = AMF0_TYPE_STRING then
            (if length data < 2 then None
             else
               let field_len = push_bit 8 (unat (data ! 0)) + unat (data ! 1);
                   data2 = drop 2 data
               in if length data2 < field_len then None
                  else Some (drop field_len data2))
          else None)"

text \<open>
  \<open>strncmp s1 s2 n\<close> for a buffer \<open>s1\<close> and a literal \<open>s2\<close>: at most \<open>n\<close>
  characters are compared, and the comparison stops behind a NUL.  The end of
  the literal's list is its terminating NUL.  Every caller has checked that the
  buffer holds \<open>n\<close> bytes, so the end of \<open>s1\<close> is never reached; it reads as
  NUL to keep the function total.
\<close>

fun strncmp :: "u8 list \<Rightarrow> u8 list \<Rightarrow> nat \<Rightarrow> int" where
  "strncmp s1 s2 0 = 0"
| "strncmp s1 s2 (Suc n) =
     (let c1 = (case s1 of [] \<Rightarrow> 0 | c # _ \<Rightarrow> c);
          c2 = (case s2 of [] \<Rightarrow> 0 | c # _ \<Rightarrow> c)
      in if c1 \<noteq> c2 then int (unat c1) - int (unat c2)
         else if c1 = 0 then 0
         else strncmp (tl s1) (tl s2) n)"

subsection \<open>The connect command\<close>

text \<open>
  One pass through the body of the \<open>do \<dots> while (size > 0)\<close> loop over the
  command object's properties: it jumps to the failure label, leaves the loop
  at the end-of-object marker, or arrives at the loop test with the flow data
  (whose strings it may have set) and the buffer behind the property.
\<close>

datatype property_exit =
    Property_fail ServiceRTMPData
  | Property_end ServiceRTMPData
  | Property_next ServiceRTMPData "u8 list"

definition command_object_property :: "u8 list \<Rightarrow> ServiceRTMPData \<Rightarrow> property_exit" where
  "command_object_property data0 ss =
     (if length data0 < 3 then Property_fail ss
      else
        let field_len = push_bit 8 (unat (data0 ! 0)) + unat (data0 ! 1) in
          if field_len = 0 then
            (if data0 ! 2 = AMF0_TYPE_OBJECT_END then Property_end ss else Property_fail ss)
          else
            let data = drop 2 data0 in
              if length data < field_len then Property_fail ss
              else if swfUrl ss = None \<and> field_len = RTMP_PROPERTY_KEY_SWFURL_LEN
                      \<and> strncmp data RTMP_PROPERTY_KEY_SWFURL RTMP_PROPERTY_KEY_SWFURL_LEN = 0
              then
                (case duplicate_string (drop field_len data) of
                   None \<Rightarrow> Property_fail (ss\<lparr>swfUrl := None\<rparr>)
                 | Some (str, data') \<Rightarrow> Property_next (ss\<lparr>swfUrl := Some str\<rparr>) data')
              else if pageUrl ss = None \<and> field_len = RTMP_PROPERTY_KEY_PAGEURL_LEN
                      \<and> strncmp data RTMP_PROPERTY_KEY_PAGEURL RTMP_PROPERTY_KEY_PAGEURL_LEN = 0
              then
                (case duplicate_string (drop field_len data) of
                   None \<Rightarrow> Property_fail (ss\<lparr>pageUrl := None\<rparr>)
                 | Some (str, data') \<Rightarrow> Property_next (ss\<lparr>pageUrl := Some str\<rparr>) data')
              else
                (case skip_property_value (drop field_len data) of
                   None \<Rightarrow> Property_fail ss
                 | Some data' \<Rightarrow> Property_next ss data'))"

lemma command_object_property_shorter:
  assumes "command_object_property data0 ss = Property_next ss' data'"
  shows "length data' < length data0"
  using assms
  by (auto simp: command_object_property_def duplicate_string_def skip_property_value_def
      Let_def split: if_splits option.splits)

text \<open>
  The loop: the result is the \<open>ret\<close> of \<open>parse_rtmp_message\<close> and the flow
  data.
\<close>

function command_object_loop :: "u8 list \<Rightarrow> ServiceRTMPData \<Rightarrow> bool \<times> ServiceRTMPData" where
  "command_object_loop data0 ss =
     (case command_object_property data0 ss of
        Property_fail ss' \<Rightarrow> (False, ss')
      | Property_end ss' \<Rightarrow> (True, ss')
      | Property_next ss' data' \<Rightarrow>
          if length data' > 0 then command_object_loop data' ss' else (True, ss'))"
  by pat_completeness auto
termination
  by (relation "measure (\<lambda>(data0, ss). length data0)")
     (auto intro: command_object_property_shorter)

declare command_object_loop.simps [simp del]

text \<open>
  Lines 366 to 439 of \<open>parse_rtmp_message\<close>: the checks on the reassembled
  body in front of the property loop, then the loop.
\<close>

definition parse_connect_command :: "u8 list \<Rightarrow> ServiceRTMPData \<Rightarrow> bool \<times> ServiceRTMPData" where
  "parse_connect_command body ss =
     (if length body < 1 + 2 then (False, ss)
      else if body ! 0 \<noteq> AMF0_TYPE_STRING then (False, ss)
      else
        let field_len = push_bit 8 (unat (body ! 1)) + unat (body ! 2) in
          if field_len = 0 then (False, ss)
          else
            let data1 = drop (1 + 2) body in
              if length data1 < field_len then (False, ss)
              else if strncmp data1 RTMP_COMMAND_TYPE_CONNECT field_len \<noteq> 0 then (False, ss)
              else
                let data2 = drop field_len data1 in
                  if length data2 < 1 + 8 then (False, ss)
                  else if data2 ! 0 \<noteq> AMF0_TYPE_NUMBER then (False, ss)
                  else
                    let data3 = drop (1 + 8) data2 in
                      if length data3 < 1 then (False, ss)
                      else if data3 ! 0 \<noteq> AMF0_TYPE_OBJECT then (False, ss)
                      else command_object_loop (drop 1 data3) ss)"

text \<open>
  \<open>parse_rtmp_message\<close> yields its return value, the caller's buffer (advanced
  behind the message only when reassembly succeeded) and the flow data.  The
  body is \<open>msg_len\<close> bytes long, and \<open>size = msg_len\<close> stores a 32-bit value
  into the 16-bit \<open>size\<close>: the parser sees the first \<open>msg_len mod 65536\<close> bytes.
\<close>

definition parse_rtmp_message ::
  "u8 list \<Rightarrow> ServiceRTMPData \<Rightarrow> bool \<times> u8 list \<times> ServiceRTMPData" where
  "parse_rtmp_message data0 ss =
     (case parse_rtmp_message_header data0 of
        None \<Rightarrow> (False, data0, ss)
      | Some (csid, msg_len, msg_type, data) \<Rightarrow>
          if msg_type \<noteq> RTMP_AMF0_COMMAND_MESSAGE_ID then (False, data0, ss)
          else
            (case unchunk_rtmp_message_body data csid msg_len [] of
               None \<Rightarrow> (False, data0, ss)
             | Some (body, data') \<Rightarrow>
                 (case parse_connect_command (take (msg_len mod 65536) body) ss of
                    (ret, ss') \<Rightarrow> (ret, data', ss'))))"

subsection \<open>The validator's two state machines\<close>

text \<open>
  One pass through the \<open>switch\<close> either jumps to \<open>fail\<close> or reaches a
  \<open>break\<close> with the flow data and the buffer as they then are.  A case that
  falls through is the function of the next label applied to the updated data.
\<close>

datatype switch_exit =
    Goto_fail ServiceRTMPData
  | Break ServiceRTMPData "u8 list"

definition client_case_DONE :: "ServiceRTMPData \<Rightarrow> u8 list \<Rightarrow> switch_exit" where
  "client_case_DONE ss data = Break ss []"

definition client_case_SENT_HANDSHAKE2 :: "ServiceRTMPData \<Rightarrow> u8 list \<Rightarrow> switch_exit" where
  "client_case_SENT_HANDSHAKE2 ss data =
     (case parse_rtmp_message data ss of
        (ret, data', ss') \<Rightarrow>
          if ret then client_case_DONE (ss'\<lparr>client_state := RTMP_STATE_DONE\<rparr>) data'
          else Goto_fail ss')"

definition client_case_SENDING_HANDSHAKE2 :: "ServiceRTMPData \<Rightarrow> u8 list \<Rightarrow> switch_exit" where
  "client_case_SENDING_HANDSHAKE2 ss data =
     (if length data < client_bytes_left ss
      then Break (ss\<lparr>client_bytes_left := client_bytes_left ss - length data\<rparr>) []
      else Break (ss\<lparr>client_state := RTMP_STATE_SENT_HANDSHAKE2\<rparr>)
             (drop (client_bytes_left ss) data))"

definition client_case_SENT_HANDSHAKE1 :: "ServiceRTMPData \<Rightarrow> u8 list \<Rightarrow> switch_exit" where
  "client_case_SENT_HANDSHAKE1 ss data =
     (if state_num (server_state ss) < state_num RTMP_STATE_SENT_HANDSHAKE1 then Goto_fail ss
      else client_case_SENDING_HANDSHAKE2
             (ss\<lparr>client_state := RTMP_STATE_SENDING_HANDSHAKE2,
                 client_bytes_left := RTMP_HANDSHAKE2_SIZE\<rparr>) data)"

definition client_case_SENDING_HANDSHAKE1 :: "ServiceRTMPData \<Rightarrow> u8 list \<Rightarrow> switch_exit" where
  "client_case_SENDING_HANDSHAKE1 ss data =
     (if length data < client_bytes_left ss
      then Break (ss\<lparr>client_bytes_left := client_bytes_left ss - length data\<rparr>) []
      else Break (ss\<lparr>client_state := RTMP_STATE_SENT_HANDSHAKE1\<rparr>)
             (drop (client_bytes_left ss) data))"

definition client_case_SENT_HANDSHAKE0 :: "ServiceRTMPData \<Rightarrow> u8 list \<Rightarrow> switch_exit" where
  "client_case_SENT_HANDSHAKE0 ss data =
     client_case_SENDING_HANDSHAKE1
       (ss\<lparr>client_state := RTMP_STATE_SENDING_HANDSHAKE1,
           client_bytes_left := RTMP_HANDSHAKE1_SIZE\<rparr>) data"

definition client_case_INIT :: "ServiceRTMPData \<Rightarrow> u8 list \<Rightarrow> switch_exit" where
  "client_case_INIT ss data =
     (if data ! 0 \<noteq> RTMP_VER_3 then Goto_fail ss
      else Break (ss\<lparr>client_state := RTMP_STATE_SENT_HANDSHAKE0\<rparr>) (drop 1 data))"

text \<open>The \<open>switch (ss->client_state)\<close>; it runs only with \<open>size > 0\<close>.\<close>

definition client_switch :: "ServiceRTMPData \<Rightarrow> u8 list \<Rightarrow> switch_exit" where
  "client_switch ss data =
     (case client_state ss of
        RTMP_STATE_INIT \<Rightarrow> client_case_INIT ss data
      | RTMP_STATE_SENT_HANDSHAKE0 \<Rightarrow> client_case_SENT_HANDSHAKE0 ss data
      | RTMP_STATE_SENDING_HANDSHAKE1 \<Rightarrow> client_case_SENDING_HANDSHAKE1 ss data
      | RTMP_STATE_SENT_HANDSHAKE1 \<Rightarrow> client_case_SENT_HANDSHAKE1 ss data
      | RTMP_STATE_SENDING_HANDSHAKE2 \<Rightarrow> client_case_SENDING_HANDSHAKE2 ss data
      | RTMP_STATE_SENT_HANDSHAKE2 \<Rightarrow> client_case_SENT_HANDSHAKE2 ss data
      | RTMP_STATE_DONE \<Rightarrow> client_case_DONE ss data)"

definition server_case_DONE :: "ServiceRTMPData \<Rightarrow> u8 list \<Rightarrow> switch_exit" where
  "server_case_DONE ss data = Break ss []"

definition server_case_SENT_HANDSHAKE2 :: "ServiceRTMPData \<Rightarrow> u8 list \<Rightarrow> switch_exit" where
  "server_case_SENT_HANDSHAKE2 ss data =
     server_case_DONE (ss\<lparr>server_state := RTMP_STATE_DONE\<rparr>) data"

definition server_case_SENDING_HANDSHAKE2 :: "ServiceRTMPData \<Rightarrow> u8 list \<Rightarrow> switch_exit" where
  "server_case_SENDING_HANDSHAKE2 ss data =
     (if length data < server_bytes_left ss
      then Break (ss\<lparr>server_bytes_left := server_bytes_left ss - length data\<rparr>) []
      else server_case_SENT_HANDSHAKE2 (ss\<lparr>server_state := RTMP_STATE_SENT_HANDSHAKE2\<rparr>)
             (drop (server_bytes_left ss) data))"

definition server_case_SENT_HANDSHAKE1 :: "ServiceRTMPData \<Rightarrow> u8 list \<Rightarrow> switch_exit" where
  "server_case_SENT_HANDSHAKE1 ss data =
     (if state_num (client_state ss) < state_num RTMP_STATE_SENT_HANDSHAKE1 then Goto_fail ss
      else server_case_SENDING_HANDSHAKE2
             (ss\<lparr>server_state := RTMP_STATE_SENDING_HANDSHAKE2,
                 server_bytes_left := RTMP_HANDSHAKE2_SIZE\<rparr>) data)"

definition server_case_SENDING_HANDSHAKE1 :: "ServiceRTMPData \<Rightarrow> u8 list \<Rightarrow> switch_exit" where
  "server_case_SENDING_HANDSHAKE1 ss data =
     (if length data < server_bytes_left ss
      then Break (ss\<lparr>server_bytes_left := server_bytes_left ss - length data\<rparr>) []
      else Break (ss\<lparr>server_state := RTMP_STATE_SENT_HANDSHAKE1\<rparr>)
             (drop (server_bytes_left ss) data))"

definition server_case_SENT_HANDSHAKE0 :: "ServiceRTMPData \<Rightarrow> u8 list \<Rightarrow> switch_exit" where
  "server_case_SENT_HANDSHAKE0 ss data =
     server_case_SENDING_HANDSHAKE1
       (ss\<lparr>server_state := RTMP_STATE_SENDING_HANDSHAKE1,
           server_bytes_left := RTMP_HANDSHAKE1_SIZE\<rparr>) data"

definition server_case_INIT :: "ServiceRTMPData \<Rightarrow> u8 list \<Rightarrow> switch_exit" where
  "server_case_INIT ss data =
     (if state_num (client_state ss) < state_num RTMP_STATE_SENT_HANDSHAKE0 then Goto_fail ss
      else if data ! 0 \<noteq> RTMP_VER_3 then Goto_fail ss
      else Break (ss\<lparr>server_state := RTMP_STATE_SENT_HANDSHAKE0\<rparr>) (drop 1 data))"

text \<open>The \<open>switch (ss->server_state)\<close>.\<close>

definition server_switch :: "ServiceRTMPData \<Rightarrow> u8 list \<Rightarrow> switch_exit" where
  "server_switch ss data =
     (case server_state ss of
        RTMP_STATE_INIT \<Rightarrow> server_case_INIT ss data
      | RTMP_STATE_SENT_HANDSHAKE0 \<Rightarrow> server_case_SENT_HANDSHAKE0 ss data
      | RTMP_STATE_SENDING_HANDSHAKE1 \<Rightarrow> server_case_SENDING_HANDSHAKE1 ss data
      | RTMP_STATE_SENT_HANDSHAKE1 \<Rightarrow> server_case_SENT_HANDSHAKE1 ss data
      | RTMP_STATE_SENDING_HANDSHAKE2 \<Rightarrow> server_case_SENDING_HANDSHAKE2 ss data
      | RTMP_STATE_SENT_HANDSHAKE2 \<Rightarrow> server_case_SENT_HANDSHAKE2 ss data
      | RTMP_STATE_DONE \<Rightarrow> server_case_DONE ss data)"

text \<open>
  The two \<open>while (size > 0)\<close> loops: \<open>Inl\<close> is the jump to \<open>fail\<close>, \<open>Inr\<close>
  the normal end of the loop, each with the flow data at that point.  Every
  pass either shortens the buffer or moves the side's state forward, which is
  the termination order.
\<close>

definition client_loop_measure :: "ServiceRTMPData \<times> u8 list \<Rightarrow> nat" where
  "client_loop_measure = (\<lambda>(ss, data). 7 * length data + (6 - state_num (client_state ss)))"

definition server_loop_measure :: "ServiceRTMPData \<times> u8 list \<Rightarrow> nat" where
  "server_loop_measure = (\<lambda>(ss, data). 7 * length data + (6 - state_num (server_state ss)))"

lemma client_switch_decreases:
  assumes "client_switch ss data = Break ss' data'" and "0 < length data"
  shows "client_loop_measure (ss', data') < client_loop_measure (ss, data)"
  using assms
  by (cases "client_state ss")
     (auto simp: client_switch_def client_loop_measure_def client_case_INIT_def
        client_case_SENT_HANDSHAKE0_def client_case_SENDING_HANDSHAKE1_def
        client_case_SENT_HANDSHAKE1_def client_case_SENDING_HANDSHAKE2_def
        client_case_SENT_HANDSHAKE2_def client_case_DONE_def
        RTMP_HANDSHAKE1_SIZE_def RTMP_HANDSHAKE2_SIZE_def
        split: if_splits prod.splits)

lemma server_switch_decreases:
  assumes "server_switch ss data = Break ss' data'" and "0 < length data"
  shows "server_loop_measure (ss', data') < server_loop_measure (ss, data)"
  using assms
  by (cases "server_state ss")
     (auto simp: server_switch_def server_loop_measure_def server_case_INIT_def
        server_case_SENT_HANDSHAKE0_def server_case_SENDING_HANDSHAKE1_def
        server_case_SENT_HANDSHAKE1_def server_case_SENDING_HANDSHAKE2_def
        server_case_SENT_HANDSHAKE2_def server_case_DONE_def
        RTMP_HANDSHAKE1_SIZE_def RTMP_HANDSHAKE2_SIZE_def
        split: if_splits)

function client_loop :: "ServiceRTMPData \<Rightarrow> u8 list \<Rightarrow> ServiceRTMPData + ServiceRTMPData" where
  "client_loop ss data =
     (if length data > 0 then
        (case client_switch ss data of
           Goto_fail ss' \<Rightarrow> Inl ss'
         | Break ss' data' \<Rightarrow> client_loop ss' data')
      else Inr ss)"
  by pat_completeness auto
termination
  by (relation "measure client_loop_measure") (auto intro: client_switch_decreases)

function server_loop :: "ServiceRTMPData \<Rightarrow> u8 list \<Rightarrow> ServiceRTMPData + ServiceRTMPData" where
  "server_loop ss data =
     (if length data > 0 then
        (case server_switch ss data of
           Goto_fail ss' \<Rightarrow> Inl ss'
         | Break ss' data' \<Rightarrow> server_loop ss' data')
      else Inr ss)"
  by pat_completeness auto
termination
  by (relation "measure server_loop_measure") (auto intro: server_switch_decreases)

declare client_loop.simps [simp del]
declare server_loop.simps [simp del]

subsection \<open>The validator\<close>

text \<open>
  Modelled from the spec: the direction constants are declared outside this
  file.  The validator tests \<open>dir\<close> for equality with each of the two, so a
  direction is one of them or some other value.
\<close>

datatype direction =
    APP_ID_FROM_INITIATOR
  | APP_ID_FROM_RESPONDER
  | APP_ID_OTHER_DIRECTION

text \<open>Modelled from the spec: the three outcomes, whose codes are declared outside this file.\<close>

datatype service_code =
    SERVICE_SUCCESS
  | SERVICE_INPROCESS
  | SERVICE_NOMATCH

text \<open>
  Of the session record of the host only the parts the validator touches: the
  flow data that \<open>data_get\<close> finds (\<open>None\<close> before the first packet with
  payload), the HTTP-like record with its two strings, the
  \<open>SCAN_HTTP_HOST_URL_FLAG\<close> bit of \<open>scan_flags\<close>, and the packet count.
\<close>

record httpSession =
  url :: "u8 list option"
  referer :: "u8 list option"

record AppIdSession =
  flow_data :: "ServiceRTMPData option"
  hsession :: "httpSession option"
  scan_http_host_url_flag :: bool
  session_packet_count :: nat

record AppIdModuleConfig =
  rtmp_max_packets :: nat
  referred_appId_disabled :: bool

text \<open>
  What a call leaves behind: its return code, the session, and the strings
  handed to \<open>snort_free\<close> (a null pointer is not listed).
\<close>

record validation =
  code :: service_code
  session :: AppIdSession
  freed :: "u8 list list"

text \<open>\<open>snort_calloc\<close> returns zeroed memory.\<close>

definition calloc_ServiceRTMPData :: ServiceRTMPData where
  "calloc_ServiceRTMPData =
     \<lparr>client_state = RTMP_STATE_INIT, server_state = RTMP_STATE_INIT,
      client_bytes_left = 0, server_bytes_left = 0, swfUrl = None, pageUrl = None\<rparr>"

definition calloc_httpSession :: httpSession where
  "calloc_httpSession = \<lparr>url = None, referer = None\<rparr>"

definition snort_free :: "u8 list option \<Rightarrow> u8 list list" where
  "snort_free p = (case p of None \<Rightarrow> [] | Some str \<Rightarrow> [str])"

text \<open>The three labels at the end of \<open>rtmp_validate\<close>.\<close>

definition validate_inprocess :: "AppIdSession \<Rightarrow> validation" where
  "validate_inprocess asd = \<lparr>code = SERVICE_INPROCESS, session = asd, freed = []\<rparr>"

definition validate_fail :: "ServiceRTMPData \<Rightarrow> AppIdSession \<Rightarrow> validation" where
  "validate_fail ss asd =
     \<lparr>code = SERVICE_NOMATCH,
      session = asd\<lparr>flow_data := Some (ss\<lparr>swfUrl := None, pageUrl := None\<rparr>)\<rparr>,
      freed = snort_free (swfUrl ss) @ snort_free (pageUrl ss)\<rparr>"

definition success_swfUrl :: "ServiceRTMPData \<Rightarrow> AppIdSession \<Rightarrow> AppIdSession \<times> u8 list list" where
  "success_swfUrl ss asd =
     (case swfUrl ss of
        None \<Rightarrow> (asd, [])
      | Some str \<Rightarrow>
          let hs = (case hsession asd of None \<Rightarrow> calloc_httpSession | Some h \<Rightarrow> h) in
            if url hs = None
            then (asd\<lparr>hsession := Some (hs\<lparr>url := Some str\<rparr>),
                      scan_http_host_url_flag := True\<rparr>, [])
            else (asd\<lparr>hsession := Some hs\<rparr>, [str]))"

definition success_pageUrl ::
  "AppIdModuleConfig \<Rightarrow> ServiceRTMPData \<Rightarrow> AppIdSession \<Rightarrow> AppIdSession \<times> u8 list list" where
  "success_pageUrl config ss asd =
     (case pageUrl ss of
        None \<Rightarrow> (asd, [])
      | Some str \<Rightarrow>
          let hs = (case hsession asd of None \<Rightarrow> calloc_httpSession | Some h \<Rightarrow> h) in
            if \<not> referred_appId_disabled config \<and> referer hs = None
            then (asd\<lparr>hsession := Some (hs\<lparr>referer := Some str\<rparr>)\<rparr>, [])
            else (asd\<lparr>hsession := Some hs\<rparr>, [str]))"

definition validate_success ::
  "AppIdModuleConfig \<Rightarrow> ServiceRTMPData \<Rightarrow> AppIdSession \<Rightarrow> validation" where
  "validate_success config ss asd =
     (case success_swfUrl ss asd of
        (asd1, freed1) \<Rightarrow>
          (case success_pageUrl config ss asd1 of
             (asd2, freed2) \<Rightarrow>
               \<lparr>code = SERVICE_SUCCESS,
                session = asd2\<lparr>flow_data := Some (ss\<lparr>swfUrl := None, pageUrl := None\<rparr>)\<rparr>,
                freed = freed1 @ freed2\<rparr>))"

text \<open>
  \<open>rtmp_validate\<close>: \<open>data\<close> is the payload of the packet (\<open>size\<close> is its
  length, a \<open>uint16_t\<close>) and \<open>dir\<close> its direction.  \<open>consume_packet\<close> is
  the \<open>if\<close> on the direction around the two loops.  The flow data lives in
  the session, so what the loops did to it is kept whatever the outcome.
\<close>

definition consume_packet ::
  "ServiceRTMPData \<Rightarrow> u8 list \<Rightarrow> direction \<Rightarrow> ServiceRTMPData + ServiceRTMPData" where
  "consume_packet ss data dir =
     (if dir = APP_ID_FROM_INITIATOR then client_loop ss data
      else if dir = APP_ID_FROM_RESPONDER then server_loop ss data
      else Inr ss)"

definition rtmp_validate ::
  "AppIdModuleConfig \<Rightarrow> AppIdSession \<Rightarrow> u8 list \<Rightarrow> direction \<Rightarrow> validation" where
  "rtmp_validate config asd data dir =
     (if length data = 0 then validate_inprocess asd
      else
        let ss = (case flow_data asd of None \<Rightarrow> calloc_ServiceRTMPData | Some ss0 \<Rightarrow> ss0)
        in
          case consume_packet ss data dir of
            Inl ss' \<Rightarrow> validate_fail ss' asd
          | Inr ss' \<Rightarrow>
              if client_state ss' = RTMP_STATE_DONE \<and> server_state ss' = RTMP_STATE_DONE
              then validate_success config ss' asd
              else if session_packet_count asd \<ge> rtmp_max_packets config
              then validate_fail ss' asd
              else validate_inprocess (asd\<lparr>flow_data := Some ss'\<rparr>))"

subsection \<open>Relations between flow data\<close>

text \<open>
  \<open>captures_only ss ss'\<close>: the second differs from the first at most in strings
  that were null in the first.  \<open>keeps_strings\<close> is its part about the strings,
  \<open>advances\<close> says that neither side's state has moved backwards.
\<close>

definition captures_only :: "ServiceRTMPData \<Rightarrow> ServiceRTMPData \<Rightarrow> bool" where
  "captures_only ss ss' =
     (client_state ss' = client_state ss \<and> server_state ss' = server_state ss
      \<and> client_bytes_left ss' = client_bytes_left ss
      \<and> server_bytes_left ss' = server_bytes_left ss
      \<and> (swfUrl ss = None \<or> swfUrl ss' = swfUrl ss)
      \<and> (pageUrl ss = None \<or> pageUrl ss' = pageUrl ss))"

definition keeps_strings :: "ServiceRTMPData \<Rightarrow> ServiceRTMPData \<Rightarrow> bool" where
  "keeps_strings ss ss' =
     ((swfUrl ss = None \<or> swfUrl ss' = swfUrl ss)
      \<and> (pageUrl ss = None \<or> pageUrl ss' = pageUrl ss))"

definition advances :: "ServiceRTMPData \<Rightarrow> ServiceRTMPData \<Rightarrow> bool" where
  "advances ss ss' =
     (state_num (client_state ss) \<le> state_num (client_state ss')
      \<and> state_num (server_state ss) \<le> state_num (server_state ss'))"

subsection \<open>Runs of calls\<close>

text \<open>
  The flow data and the HTTP-like record as the validator sees them: a record
  that does not exist yet is created zeroed on first use.
\<close>

definition flow_view :: "AppIdSession \<Rightarrow> ServiceRTMPData" where
  "flow_view asd = (case flow_data asd of None \<Rightarrow> calloc_ServiceRTMPData | Some ss \<Rightarrow> ss)"

text \<open>The flow data at the moment a call leaves its loop, by either exit.\<close>

definition flow_at_exit :: "AppIdSession \<Rightarrow> u8 list \<Rightarrow> direction \<Rightarrow> ServiceRTMPData" where
  "flow_at_exit asd data dir =
     (case consume_packet (flow_view asd) data dir of Inl ss' \<Rightarrow> ss' | Inr ss' \<Rightarrow> ss')"

definition hsession_view :: "AppIdSession \<Rightarrow> httpSession" where
  "hsession_view asd = (case hsession asd of None \<Rightarrow> calloc_httpSession | Some h \<Rightarrow> h)"

text \<open>
  A sequence of calls on one flow, each with the packet count the host has
  reached, its payload and its direction: the return codes in order and the
  session behind the last call.
\<close>

fun rtmp_calls ::
  "AppIdModuleConfig \<Rightarrow> AppIdSession \<Rightarrow> (nat \<times> u8 list \<times> direction) list
   \<Rightarrow> service_code list \<times> AppIdSession" where
  "rtmp_calls config asd [] = ([], asd)"
| "rtmp_calls config asd ((n, data, dir) # calls) =
     (case rtmp_validate config (asd\<lparr>session_packet_count := n\<rparr>) data dir of
        r \<Rightarrow> (case rtmp_calls config (session r) calls of
                (codes, asd') \<Rightarrow> (code r # codes, asd')))"

subsection \<open>The ordering between the two sides\<close>

text \<open>
  The three relations between the two sides' states that the spec lists: the
  client is past \<open>RTMP_STATE_SENT_HANDSHAKE1\<close> only if the server has reached
  it, the server is past \<open>RTMP_STATE_INIT\<close> only if the client has reached
  \<open>RTMP_STATE_SENT_HANDSHAKE0\<close>, and the server is past
  \<open>RTMP_STATE_SENT_HANDSHAKE1\<close> only if the client has reached it.
\<close>

definition handshake_order :: "ServiceRTMPData \<Rightarrow> bool" where
  "handshake_order ss =
     ((state_num RTMP_STATE_SENT_HANDSHAKE1 < state_num (client_state ss) \<longrightarrow>
         state_num RTMP_STATE_SENT_HANDSHAKE1 \<le> state_num (server_state ss))
      \<and> (state_num RTMP_STATE_INIT < state_num (server_state ss) \<longrightarrow>
         state_num RTMP_STATE_SENT_HANDSHAKE0 \<le> state_num (client_state ss))
      \<and> (state_num RTMP_STATE_SENT_HANDSHAKE1 < state_num (server_state ss) \<longrightarrow>
         state_num RTMP_STATE_SENT_HANDSHAKE1 \<le> state_num (client_state ss)))"

subsection \<open>Delivery in chunks\<close>

text \<open>
  The byte counters are only meaningful while their side is in one of the two
  Sending states.  \<open>same_flow\<close> relates flow data that agree on everything
  else and on the counters that are meaningful.
\<close>

definition sending :: "RTMPState \<Rightarrow> bool" where
  "sending st = (st = RTMP_STATE_SENDING_HANDSHAKE1 \<or> st = RTMP_STATE_SENDING_HANDSHAKE2)"

definition same_flow :: "ServiceRTMPData \<Rightarrow> ServiceRTMPData \<Rightarrow> bool" where
  "same_flow a b =
     (client_state a = client_state b \<and> server_state a = server_state b
      \<and> swfUrl a = swfUrl b \<and> pageUrl a = pageUrl b
      \<and> (if sending (client_state a) then client_bytes_left a = client_bytes_left b else True)
      \<and> (if sending (server_state a) then server_bytes_left a = server_bytes_left b else True))"

fun same_exit :: "switch_exit \<Rightarrow> switch_exit \<Rightarrow> bool" where
  "same_exit (Goto_fail a) (Goto_fail b) = same_flow a b"
| "same_exit (Break a d) (Break b e) = (same_flow a b \<and> d = e)"
| "same_exit x y = False"

text \<open>
  The bytes of one direction delivered in chunks, each with the packet count the
  host has reached: the calls go on while they return in-process, and the first
  other code is the classification of the flow.
\<close>

fun deliver ::
  "AppIdModuleConfig \<Rightarrow> AppIdSession \<Rightarrow> direction \<Rightarrow> (nat \<times> u8 list) list
   \<Rightarrow> service_code \<times> AppIdSession" where
  "deliver config asd dir [] = (SERVICE_INPROCESS, asd)"
| "deliver config asd dir ((n, chunk) # chunks) =
     (case rtmp_validate config (asd\<lparr>session_packet_count := n\<rparr>) chunk dir of
        r \<Rightarrow> if code r = SERVICE_INPROCESS then deliver config (session r) dir chunks
             else (code r, session r))"

text \<open>
  The chunks that such a run leaves undelivered: those behind the call that
  returned the classification.
\<close>

fun undelivered ::
  "AppIdModuleConfig \<Rightarrow> AppIdSession \<Rightarrow> direction \<Rightarrow> (nat \<times> u8 list) list
   \<Rightarrow> (nat \<times> u8 list) list" where
  "undelivered config asd dir [] = []"
| "undelivered config asd dir ((n, chunk) # chunks) =
     (case rtmp_validate config (asd\<lparr>session_packet_count := n\<rparr>) chunk dir of
        r \<Rightarrow> if code r = SERVICE_INPROCESS then undelivered config (session r) dir chunks
             else chunks)"

text \<open>What a loop's exit means for the call when the ceiling is not reached.\<close>

definition classify :: "ServiceRTMPData + ServiceRTMPData \<Rightarrow> service_code" where
  "classify x =
     (case x of
        Inl ss \<Rightarrow> SERVICE_NOMATCH
      | Inr ss \<Rightarrow>
          if client_state ss = RTMP_STATE_DONE \<and> server_state ss = RTMP_STATE_DONE
          then SERVICE_SUCCESS else SERVICE_INPROCESS)"

subsection \<open>The spec's account of the command object\<close>

text \<open>
  The layout of the command object as sections 4.4 and 4.5 of the spec give it,
  written without reference to the code.  A two-byte big-endian number:
\<close>

definition be16 :: "u8 \<Rightarrow> u8 \<Rightarrow> nat" where
  "be16 hi lo = 256 * unat hi + unat lo"

text \<open>
  Read string: the tag 0x02, a two-byte big-endian length above zero and that
  many bytes; the predicate gives the string and the bytes behind it.
\<close>

inductive amf0_read_string :: "u8 list \<Rightarrow> u8 list \<Rightarrow> u8 list \<Rightarrow> bool" where
  "0 < be16 hi lo \<Longrightarrow> be16 hi lo \<le> length t \<Longrightarrow>
   amf0_read_string (0x02 # hi # lo # t) (take (be16 hi lo) t) (drop (be16 hi lo) t)"

text \<open>
  Skip value: a number is the tag 0x00 and eight bytes, a boolean the tag 0x01
  and one byte, a string the tag 0x02, a two-byte length and that many bytes;
  the predicate gives the bytes behind the value.  No other tag is a value.
\<close>

inductive amf0_skip_value :: "u8 list \<Rightarrow> u8 list \<Rightarrow> bool" where
  number: "8 \<le> length t \<Longrightarrow> amf0_skip_value (0x00 # t) (drop 8 t)"
| boolean: "amf0_skip_value (0x01 # b # t) t"
| string: "be16 hi lo \<le> length t \<Longrightarrow> amf0_skip_value (0x02 # hi # lo # t) (drop (be16 hi lo) t)"

text \<open>
  A complete key/value pair at the front of the buffer: a two-byte key length
  above zero, that many key bytes (no tag in front of them), and the value.
  The key \<open>swfUrl\<close> with no such string captured yet takes a string and
  captures it; otherwise the key \<open>pageUrl\<close> with no such string captured yet
  does the same; any other pair has a value that is skipped.  The predicate
  relates the buffer and the flow data to the flow data and the bytes behind
  the pair.
\<close>

inductive key_value_pair ::
  "u8 list \<Rightarrow> ServiceRTMPData \<Rightarrow> ServiceRTMPData \<Rightarrow> u8 list \<Rightarrow> bool" where
  swf_url:
    "0 < be16 hi lo \<Longrightarrow> be16 hi lo \<le> length t \<Longrightarrow>
     take (be16 hi lo) t = map of_char ''swfUrl'' \<Longrightarrow> swfUrl ss = None \<Longrightarrow>
     amf0_read_string (drop (be16 hi lo) t) str rest \<Longrightarrow>
     key_value_pair (hi # lo # t) ss (ss\<lparr>swfUrl := Some str\<rparr>) rest"
| page_url:
    "0 < be16 hi lo \<Longrightarrow> be16 hi lo \<le> length t \<Longrightarrow>
     take (be16 hi lo) t = map of_char ''pageUrl'' \<Longrightarrow> pageUrl ss = None \<Longrightarrow>
     amf0_read_string (drop (be16 hi lo) t) str rest \<Longrightarrow>
     key_value_pair (hi # lo # t) ss (ss\<lparr>pageUrl := Some str\<rparr>) rest"
| other:
    "0 < be16 hi lo \<Longrightarrow> be16 hi lo \<le> length t \<Longrightarrow>
     \<not> (take (be16 hi lo) t = map of_char ''swfUrl'' \<and> swfUrl ss = None) \<Longrightarrow>
     \<not> (take (be16 hi lo) t = map of_char ''pageUrl'' \<and> pageUrl ss = None) \<Longrightarrow>
     amf0_skip_value (drop (be16 hi lo) t) rest \<Longrightarrow>
     key_value_pair (hi # lo # t) ss ss rest"

text \<open>
  A successful scan of the command object, with the flow data before and after:
  the buffer starts with the end-of-object marker (a key length of zero
  followed at once by the tag 0x09); or it is one complete key/value pair and
  nothing more; or it is a complete pair followed by bytes whose scan succeeds.
\<close>

inductive property_scan :: "u8 list \<Rightarrow> ServiceRTMPData \<Rightarrow> ServiceRTMPData \<Rightarrow> bool" where
  end_marker: "property_scan (0 # 0 # 0x09 # rest) ss ss"
| exhausted: "key_value_pair data ss ss' [] \<Longrightarrow> property_scan data ss ss'"
| pair:
    "key_value_pair data ss ss' rest \<Longrightarrow> rest \<noteq> [] \<Longrightarrow> property_scan rest ss' ss'' \<Longrightarrow>
     property_scan data ss ss''"

code_pred amf0_read_string .

code_pred amf0_skip_value .

code_pred key_value_pair .

code_pred property_scan .

section \<open>Properties\<close>

subsection \<open>Chunk basic header\<close>

lemma basic_header_insufficient:
  assumes "data = [] \<or> length data < basic_header_len (data ! 0)"
  shows "snd (parse_rtmp_chunk_basic_header data) = None"
  using assms
  by (auto simp: parse_rtmp_chunk_basic_header_def basic_header_len_def Let_def
      unat_eq_0 split: if_splits)

text \<open>
  C2.  With fewer bytes than the announced prefix the reader returns the
  insufficient-data outcome, but not always without reading behind the slice:
  on the one-byte slice \<open>[0x01]\<close> (raw id 1, three-byte form) it returns the
  insufficient-data outcome after dereferencing offsets 2 and 1, both behind the
  single available byte.
\<close>

theorem basic_header_reads_past_slice:
  "parse_rtmp_chunk_basic_header [0x01] = ([0, 0, 2, 1], None)
   \<and> length [0x01 :: u8] = 1
   \<and> basic_header_len 0x01 = 3"
  by (simp add: parse_rtmp_chunk_basic_header_def basic_header_len_def)

subsection \<open>Evaluating the parsers on literals\<close>

lemma strncmp_numeral:
  "strncmp s1 s2 (numeral k) =
     (let c1 = (case s1 of [] \<Rightarrow> 0 | c # _ \<Rightarrow> c);
          c2 = (case s2 of [] \<Rightarrow> 0 | c # _ \<Rightarrow> c)
      in if c1 \<noteq> c2 then int (unat c1) - int (unat c2)
         else if c1 = 0 then 0
         else strncmp (tl s1) (tl s2) (pred_numeral k))"
  by (simp add: numeral_eq_Suc)

lemma command_object_loop_end_marker:
  "command_object_loop (0 # 0 # 9 # rest) ss = (True, ss)"
  by (simp add: command_object_loop.simps command_object_property_def AMF0_TYPE_OBJECT_END_def)

subsection \<open>The command name\<close>

text \<open>
  C3.  The command name is compared with \<open>strncmp\<close> over the length the
  message announces, so a name that is a proper prefix of \<open>connect\<close> passes.
  The body below carries the AMF0 string \<open>con\<close>, a transaction id and an
  empty command object; the parser accepts it, and the validator, given the
  message in one packet from the client with the client's handshake complete
  and the server side done, reports success.
\<close>

theorem connect_prefix_accepted:
  "parse_connect_command
     [2, 0, 3, 99, 111, 110, 0, 0, 0, 0, 0, 0, 0, 0, 0, 3, 0, 0, 9] ss = (True, ss)
   \<and> [99, 111, 110] \<noteq> RTMP_COMMAND_TYPE_CONNECT
   \<and> code (rtmp_validate config
        (asd\<lparr>flow_data := Some \<lparr>client_state = RTMP_STATE_SENT_HANDSHAKE2,
            server_state = RTMP_STATE_DONE, client_bytes_left = 0, server_bytes_left = 0,
            swfUrl = None, pageUrl = None\<rparr>\<rparr>)
        [3, 0, 0, 0, 0, 0, 19, 20, 0, 0, 0, 0,
         2, 0, 3, 99, 111, 110, 0, 0, 0, 0, 0, 0, 0, 0, 0, 3, 0, 0, 9]
        APP_ID_FROM_INITIATOR) = SERVICE_SUCCESS"
proof -
  let ?body = "[2, 0, 3, 99, 111, 110, 0, 0, 0, 0, 0, 0, 0, 0, 0, 3, 0, 0, 9] :: u8 list"
  let ?msg = "[3, 0, 0, 0, 0, 0, 19, 20, 0, 0, 0, 0] @ ?body"
  let ?st = "\<lparr>client_state = RTMP_STATE_SENT_HANDSHAKE2,
            server_state = RTMP_STATE_DONE, client_bytes_left = 0, server_bytes_left = 0,
            swfUrl = None, pageUrl = None\<rparr>"
  have body: "parse_connect_command ?body s = (True, s)" for s
    by (simp add: parse_connect_command_def command_object_loop_end_marker strncmp_numeral
        RTMP_COMMAND_TYPE_CONNECT_def AMF0_TYPE_STRING_def AMF0_TYPE_NUMBER_def
        AMF0_TYPE_OBJECT_def)
  have lit: "[99, 111, 110] \<noteq> RTMP_COMMAND_TYPE_CONNECT"
    by (simp add: RTMP_COMMAND_TYPE_CONNECT_def)
  have header: "parse_rtmp_message_header ?msg = Some (3, 19, 20, ?body)"
    by (simp add: parse_rtmp_message_header_def parse_rtmp_chunk_basic_header_def)
  have unchunk: "unchunk_rtmp_message_body ?body 3 19 [] = Some (?body, [])"
    by (simp add: unchunk_rtmp_message_body.simps RTMP_CHUNK_SIZE_def)
  have message: "parse_rtmp_message ?msg ?st = (True, [], ?st)"
    by (simp only: parse_rtmp_message_def header unchunk option.case prod.case)
       (simp add: RTMP_AMF0_COMMAND_MESSAGE_ID_def body)
  have loop: "client_loop ?st ?msg = Inr (?st\<lparr>client_state := RTMP_STATE_DONE\<rparr>)"
    by (subst client_loop.simps)
       (simp add: client_switch_def client_case_SENT_HANDSHAKE2_def client_case_DONE_def
          message[simplified] client_loop.simps[of _ "[]"])
  have "code (rtmp_validate config (asd\<lparr>flow_data := Some ?st\<rparr>) ?msg APP_ID_FROM_INITIATOR)
          = SERVICE_SUCCESS"
    by (simp add: rtmp_validate_def consume_packet_def loop[simplified] validate_success_def
        split: prod.splits)
  with body lit show ?thesis by simp
qed

subsection \<open>A call without payload\<close>

text \<open>
  C4, as the code has it.  A call with zero payload bytes returns in-process at
  once: the session, with the flow data in it, is left as it was, nothing is
  freed, and neither the packet-count ceiling nor the test for success is
  evaluated.
\<close>

theorem zero_payload_inprocess:
  "rtmp_validate config asd [] dir = \<lparr>code = SERVICE_INPROCESS, session = asd, freed = []\<rparr>"
  by (simp add: rtmp_validate_def validate_inprocess_def)

text \<open>
  C4 as stated fails: with the packet count 9 at a ceiling of 5 and the flow
  undetermined, the call without payload does not report failure.
\<close>

theorem zero_payload_skips_ceiling:
  "rtmp_max_packets \<lparr>rtmp_max_packets = 5, referred_appId_disabled = False\<rparr>
     \<le> session_packet_count
         \<lparr>flow_data = Some calloc_ServiceRTMPData, hsession = None,
          scan_http_host_url_flag = False, session_packet_count = 9\<rparr>
   \<and> code (rtmp_validate \<lparr>rtmp_max_packets = 5, referred_appId_disabled = False\<rparr>
        \<lparr>flow_data = Some calloc_ServiceRTMPData, hsession = None,
         scan_http_host_url_flag = False, session_packet_count = 9\<rparr>
        [] APP_ID_FROM_INITIATOR) \<noteq> SERVICE_NOMATCH"
  by (simp add: rtmp_validate_def validate_inprocess_def)

subsection \<open>What the loops keep\<close>

lemmas client_switch_defs =
  client_switch_def client_case_INIT_def client_case_SENT_HANDSHAKE0_def
  client_case_SENDING_HANDSHAKE1_def client_case_SENT_HANDSHAKE1_def
  client_case_SENDING_HANDSHAKE2_def client_case_SENT_HANDSHAKE2_def client_case_DONE_def

lemmas server_switch_defs =
  server_switch_def server_case_INIT_def server_case_SENT_HANDSHAKE0_def
  server_case_SENDING_HANDSHAKE1_def server_case_SENT_HANDSHAKE1_def
  server_case_SENDING_HANDSHAKE2_def server_case_SENT_HANDSHAKE2_def server_case_DONE_def

lemma captures_only_refl: "captures_only ss ss"
  by (simp add: captures_only_def)

lemma captures_only_trans:
  "captures_only a b \<Longrightarrow> captures_only b c \<Longrightarrow> captures_only a c"
  by (auto simp: captures_only_def)

lemma command_object_property_captures_only:
  "command_object_property data0 ss = Property_fail ss' \<Longrightarrow> captures_only ss ss'"
  "command_object_property data0 ss = Property_end ss' \<Longrightarrow> captures_only ss ss'"
  "command_object_property data0 ss = Property_next ss' data' \<Longrightarrow> captures_only ss ss'"
  by (auto simp: command_object_property_def captures_only_def Let_def
      split: if_splits option.splits)

lemma command_object_loop_captures_only:
  "command_object_loop data0 ss = (ret, ss') \<Longrightarrow> captures_only ss ss'"
proof (induction data0 ss rule: command_object_loop.induct)
  case (1 data0 ss)
  show ?case
  proof (cases "command_object_property data0 ss")
    case (Property_fail s)
    with "1.prems" command_object_property_captures_only(1)[OF Property_fail] show ?thesis
      by (simp add: command_object_loop.simps[of data0 ss])
  next
    case (Property_end s)
    with "1.prems" command_object_property_captures_only(2)[OF Property_end] show ?thesis
      by (simp add: command_object_loop.simps[of data0 ss])
  next
    case (Property_next s d)
    have step: "captures_only ss s"
      by (rule command_object_property_captures_only(3)[OF Property_next])
    show ?thesis
    proof (cases "0 < length d")
      case True
      with "1.prems" Property_next have "command_object_loop d s = (ret, ss')"
        by (simp add: command_object_loop.simps[of data0 ss])
      from "1.IH"[OF Property_next True this] step show ?thesis
        by (rule captures_only_trans[rotated])
    next
      case False
      with "1.prems" Property_next step show ?thesis
        by (simp add: command_object_loop.simps[of data0 ss])
    qed
  qed
qed

lemma parse_connect_command_captures_only:
  "parse_connect_command body ss = (ret, ss') \<Longrightarrow> captures_only ss ss'"
  by (auto simp: parse_connect_command_def Let_def captures_only_refl
      split: if_splits dest: command_object_loop_captures_only)

lemma parse_rtmp_message_captures_only:
  "parse_rtmp_message data ss = (ret, data', ss') \<Longrightarrow> captures_only ss ss'"
  by (auto simp: parse_rtmp_message_def captures_only_refl
      split: option.splits if_splits prod.splits dest: parse_connect_command_captures_only)

lemma client_switch_advances:
  "client_switch ss data = Break ss' data' \<Longrightarrow> advances ss ss'"
  "client_switch ss data = Goto_fail ss' \<Longrightarrow> advances ss ss'"
  by (cases "client_state ss";
      auto simp: client_switch_defs advances_def captures_only_def
        split: if_splits prod.splits dest!: parse_rtmp_message_captures_only)+

lemma client_switch_keeps_strings:
  "client_switch ss data = Break ss' data' \<Longrightarrow> keeps_strings ss ss'"
  "client_switch ss data = Goto_fail ss' \<Longrightarrow> keeps_strings ss ss'"
  by (cases "client_state ss";
      auto simp: client_switch_defs keeps_strings_def captures_only_def
        split: if_splits prod.splits dest!: parse_rtmp_message_captures_only)+

lemma server_switch_advances:
  "server_switch ss data = Break ss' data' \<Longrightarrow> advances ss ss'"
  "server_switch ss data = Goto_fail ss' \<Longrightarrow> advances ss ss'"
  by (cases "server_state ss"; auto simp: server_switch_defs advances_def split: if_splits)+

lemma server_switch_strings:
  "server_switch ss data = Break ss' data' \<Longrightarrow> swfUrl ss' = swfUrl ss \<and> pageUrl ss' = pageUrl ss"
  "server_switch ss data = Goto_fail ss' \<Longrightarrow> swfUrl ss' = swfUrl ss \<and> pageUrl ss' = pageUrl ss"
  by (cases "server_state ss"; auto simp: server_switch_defs split: if_splits)+

lemma server_switch_keeps_strings:
  "server_switch ss data = Break ss' data' \<Longrightarrow> keeps_strings ss ss'"
  "server_switch ss data = Goto_fail ss' \<Longrightarrow> keeps_strings ss ss'"
  by (simp_all add: keeps_strings_def server_switch_strings)

lemma client_loop_rule:
  assumes brk: "\<And>s d s' d'. d \<noteq> [] \<Longrightarrow> client_switch s d = Break s' d' \<Longrightarrow> R s s'"
    and fl: "\<And>s d s'. d \<noteq> [] \<Longrightarrow> client_switch s d = Goto_fail s' \<Longrightarrow> F s s'"
    and refl: "\<And>s. R s s"
    and trans: "\<And>a b c. R a b \<Longrightarrow> R b c \<Longrightarrow> R a c"
    and transF: "\<And>a b c. R a b \<Longrightarrow> F b c \<Longrightarrow> F a c"
  shows "(client_loop ss data = Inr ss' \<longrightarrow> R ss ss') \<and> (client_loop ss data = Inl ss' \<longrightarrow> F ss ss')"
proof (induction ss data rule: client_loop.induct)
  case (1 ss data)
  show ?case
  proof (cases "data = []")
    case True
    then show ?thesis using refl by (simp add: client_loop.simps[of ss "[]"])
  next
    case False
    show ?thesis
    proof (cases "client_switch ss data")
      case (Goto_fail s)
      with False fl[OF False Goto_fail] show ?thesis
        by (auto simp: client_loop.simps[of ss data])
    next
      case (Break s d)
      from False have pos: "0 < length data" by simp
      have eq: "client_loop ss data = client_loop s d"
        using False Break by (simp add: client_loop.simps[of ss data])
      from "1.IH"[OF pos Break] brk[OF False Break] show ?thesis
        unfolding eq by (blast intro: trans transF)
    qed
  qed
qed

lemma server_loop_rule:
  assumes brk: "\<And>s d s' d'. d \<noteq> [] \<Longrightarrow> server_switch s d = Break s' d' \<Longrightarrow> R s s'"
    and fl: "\<And>s d s'. d \<noteq> [] \<Longrightarrow> server_switch s d = Goto_fail s' \<Longrightarrow> F s s'"
    and refl: "\<And>s. R s s"
    and trans: "\<And>a b c. R a b \<Longrightarrow> R b c \<Longrightarrow> R a c"
    and transF: "\<And>a b c. R a b \<Longrightarrow> F b c \<Longrightarrow> F a c"
  shows "(server_loop ss data = Inr ss' \<longrightarrow> R ss ss') \<and> (server_loop ss data = Inl ss' \<longrightarrow> F ss ss')"
proof (induction ss data rule: server_loop.induct)
  case (1 ss data)
  show ?case
  proof (cases "data = []")
    case True
    then show ?thesis using refl by (simp add: server_loop.simps[of ss "[]"])
  next
    case False
    show ?thesis
    proof (cases "server_switch ss data")
      case (Goto_fail s)
      with False fl[OF False Goto_fail] show ?thesis
        by (auto simp: server_loop.simps[of ss data])
    next
      case (Break s d)
      from False have pos: "0 < length data" by simp
      have eq: "server_loop ss data = server_loop s d"
        using False Break by (simp add: server_loop.simps[of ss data])
      from "1.IH"[OF pos Break] brk[OF False Break] show ?thesis
        unfolding eq by (blast intro: trans transF)
    qed
  qed
qed

lemma advances_refl: "advances s s"
  by (simp add: advances_def)

lemma advances_trans: "advances a b \<Longrightarrow> advances b c \<Longrightarrow> advances a c"
  by (auto simp: advances_def)

lemma keeps_strings_refl: "keeps_strings s s"
  by (simp add: keeps_strings_def)

lemma keeps_strings_trans: "keeps_strings a b \<Longrightarrow> keeps_strings b c \<Longrightarrow> keeps_strings a c"
  by (auto simp: keeps_strings_def)

lemma client_loop_advances:
  "client_loop ss data = Inr ss' \<Longrightarrow> advances ss ss'"
  "client_loop ss data = Inl ss' \<Longrightarrow> advances ss ss'"
  using client_loop_rule[where R = advances and F = advances and ss = ss and data = data and ss' = ss']
  by (blast intro: client_switch_advances advances_refl advances_trans)+

lemma server_loop_advances:
  "server_loop ss data = Inr ss' \<Longrightarrow> advances ss ss'"
  "server_loop ss data = Inl ss' \<Longrightarrow> advances ss ss'"
  using server_loop_rule[where R = advances and F = advances and ss = ss and data = data and ss' = ss']
  by (blast intro: server_switch_advances advances_refl advances_trans)+

lemma client_loop_keeps_strings:
  "client_loop ss data = Inr ss' \<Longrightarrow> keeps_strings ss ss'"
  "client_loop ss data = Inl ss' \<Longrightarrow> keeps_strings ss ss'"
  using client_loop_rule[where R = keeps_strings and F = keeps_strings and ss = ss and data = data and ss' = ss']
  by (blast intro: client_switch_keeps_strings keeps_strings_refl keeps_strings_trans)+

lemma server_loop_keeps_strings:
  "server_loop ss data = Inr ss' \<Longrightarrow> keeps_strings ss ss'"
  "server_loop ss data = Inl ss' \<Longrightarrow> keeps_strings ss ss'"
  using server_loop_rule[where R = keeps_strings and F = keeps_strings and ss = ss and data = data and ss' = ss']
  by (blast intro: server_switch_keeps_strings keeps_strings_refl keeps_strings_trans)+

lemma client_loop_Nil: "client_loop ss [] = Inr ss"
  by (simp add: client_loop.simps)

lemma server_loop_Nil: "server_loop ss [] = Inr ss"
  by (simp add: server_loop.simps)

lemma client_loop_step:
  "data \<noteq> [] \<Longrightarrow>
   client_loop ss data =
     (case client_switch ss data of
        Goto_fail ss' \<Rightarrow> Inl ss' | Break ss' data' \<Rightarrow> client_loop ss' data')"
  by (simp add: client_loop.simps[of ss data])

lemma server_loop_step:
  "data \<noteq> [] \<Longrightarrow>
   server_loop ss data =
     (case server_switch ss data of
        Goto_fail ss' \<Rightarrow> Inl ss' | Break ss' data' \<Rightarrow> server_loop ss' data')"
  by (simp add: server_loop.simps[of ss data])

subsection \<open>The three exits of the validator\<close>

text \<open>
  The loop that a call runs, and the call's result in terms of it.
\<close>

lemma rtmp_validate_cases:
  assumes "data \<noteq> []"
  obtains (fail_loop) ss' where
      "consume_packet (flow_view asd) data dir = Inl ss'"
      "rtmp_validate config asd data dir = validate_fail ss' asd"
  | (success) ss' where
      "consume_packet (flow_view asd) data dir = Inr ss'"
      "client_state ss' = RTMP_STATE_DONE" "server_state ss' = RTMP_STATE_DONE"
      "rtmp_validate config asd data dir = validate_success config ss' asd"
  | (ceiling) ss' where
      "consume_packet (flow_view asd) data dir = Inr ss'"
      "\<not> (client_state ss' = RTMP_STATE_DONE \<and> server_state ss' = RTMP_STATE_DONE)"
      "rtmp_max_packets config \<le> session_packet_count asd"
      "rtmp_validate config asd data dir = validate_fail ss' asd"
  | (inprocess) ss' where
      "consume_packet (flow_view asd) data dir = Inr ss'"
      "\<not> (client_state ss' = RTMP_STATE_DONE \<and> server_state ss' = RTMP_STATE_DONE)"
      "session_packet_count asd < rtmp_max_packets config"
      "rtmp_validate config asd data dir = validate_inprocess (asd\<lparr>flow_data := Some ss'\<rparr>)"
proof -
  have unfold: "rtmp_validate config asd data dir =
      (case consume_packet (flow_view asd) data dir of
         Inl ss' \<Rightarrow> validate_fail ss' asd
       | Inr ss' \<Rightarrow>
           if client_state ss' = RTMP_STATE_DONE \<and> server_state ss' = RTMP_STATE_DONE
           then validate_success config ss' asd
           else if session_packet_count asd \<ge> rtmp_max_packets config
           then validate_fail ss' asd
           else validate_inprocess (asd\<lparr>flow_data := Some ss'\<rparr>))"
    using assms by (simp add: rtmp_validate_def flow_view_def Let_def)
  show thesis
  proof (cases "consume_packet (flow_view asd) data dir")
    case (Inl s)
    have "rtmp_validate config asd data dir = validate_fail s asd"
      using unfold Inl by simp
    with Inl show thesis by (rule fail_loop)
  next
    case (Inr s)
    show thesis
    proof (cases "client_state s = RTMP_STATE_DONE \<and> server_state s = RTMP_STATE_DONE")
      case True
      have "rtmp_validate config asd data dir = validate_success config s asd"
        using unfold Inr True by simp
      with Inr True show thesis by (blast intro: success)
    next
      case notdone: False
      show thesis
      proof (cases "rtmp_max_packets config \<le> session_packet_count asd")
        case True
        have "rtmp_validate config asd data dir = validate_fail s asd"
          using unfold Inr notdone True by simp
        with Inr notdone True show thesis by (rule ceiling)
      next
        case False
        then have below: "session_packet_count asd < rtmp_max_packets config" by simp
        have "rtmp_validate config asd data dir
                = validate_inprocess (asd\<lparr>flow_data := Some s\<rparr>)"
          using unfold Inr notdone False by simp
        with Inr notdone below show thesis by (rule inprocess)
      qed
    qed
  qed
qed

lemma consume_packet_advances:
  assumes "consume_packet ss data dir = r" and "r = Inl ss' \<or> r = Inr ss'"
  shows "advances ss ss'"
  using assms
  by (auto simp: consume_packet_def advances_refl split: if_splits
      intro: client_loop_advances server_loop_advances)

lemma consume_packet_keeps_strings:
  assumes "consume_packet ss data dir = r" and "r = Inl ss' \<or> r = Inr ss'"
  shows "keeps_strings ss ss'"
  using assms
  by (auto simp: consume_packet_def keeps_strings_refl split: if_splits
      intro: client_loop_keeps_strings server_loop_keeps_strings)

lemma flow_view_validate_fail [simp]:
  "flow_view (session (validate_fail ss asd)) = ss\<lparr>swfUrl := None, pageUrl := None\<rparr>"
  by (simp add: validate_fail_def flow_view_def)

lemma flow_view_validate_inprocess [simp]:
  "flow_view (session (validate_inprocess (asd\<lparr>flow_data := Some ss\<rparr>))) = ss"
  by (simp add: validate_inprocess_def flow_view_def)

lemma session_validate_success:
  "flow_data (session (validate_success config ss asd))
     = Some (ss\<lparr>swfUrl := None, pageUrl := None\<rparr>)"
  by (simp add: validate_success_def split: prod.splits)

lemma flow_view_validate_success [simp]:
  "flow_view (session (validate_success config ss asd)) = ss\<lparr>swfUrl := None, pageUrl := None\<rparr>"
  by (simp add: flow_view_def session_validate_success)

lemma rtmp_validate_advances:
  "advances (flow_view asd) (flow_view (session (rtmp_validate config asd data dir)))"
proof (cases "data = []")
  case True
  then show ?thesis by (simp add: rtmp_validate_def validate_inprocess_def advances_refl)
next
  case False
  then show ?thesis
  proof (cases rule: rtmp_validate_cases[where config = config and asd = asd and dir = dir])
    case (fail_loop s)
    from consume_packet_advances[OF fail_loop(1)] fail_loop(2) show ?thesis
      by (simp add: advances_def)
  next
    case (success s)
    from consume_packet_advances[OF success(1)] success(4) show ?thesis
      by (simp add: advances_def)
  next
    case (ceiling s)
    from consume_packet_advances[OF ceiling(1)] ceiling(4) show ?thesis
      by (simp add: advances_def)
  next
    case (inprocess s)
    from consume_packet_advances[OF inprocess(1)] inprocess(4) show ?thesis
      by (simp add: advances_def)
  qed
qed

lemma flow_view_packet_count [simp]:
  "flow_view (asd\<lparr>session_packet_count := n\<rparr>) = flow_view asd"
  by (simp add: flow_view_def)

lemma rtmp_calls_advances:
  "advances (flow_view asd) (flow_view (snd (rtmp_calls config asd calls)))"
proof (induction calls arbitrary: asd)
  case Nil
  show ?case by (simp add: advances_refl)
next
  case (Cons c calls)
  obtain n data dir where c: "c = (n, data, dir)" by (cases c)
  let ?r = "rtmp_validate config (asd\<lparr>session_packet_count := n\<rparr>) data dir"
  have "advances (flow_view asd) (flow_view (session ?r))"
    using rtmp_validate_advances[of "asd\<lparr>session_packet_count := n\<rparr>" config data dir]
    by simp
  moreover have "advances (flow_view (session ?r))
      (flow_view (snd (rtmp_calls config (session ?r) calls)))"
    by (rule Cons.IH)
  moreover have "snd (rtmp_calls config asd (c # calls))
      = snd (rtmp_calls config (session ?r) calls)"
    by (simp add: c split: prod.splits)
  ultimately show ?case
    using advances_trans by simp
qed

lemma state_num_DONE: "6 \<le> state_num s \<longleftrightarrow> s = RTMP_STATE_DONE"
  by (cases s) simp_all

lemma advances_DONE:
  assumes "advances ss ss'"
  shows "client_state ss = RTMP_STATE_DONE \<longrightarrow> client_state ss' = RTMP_STATE_DONE"
    and "server_state ss = RTMP_STATE_DONE \<longrightarrow> server_state ss' = RTMP_STATE_DONE"
proof -
  show "client_state ss = RTMP_STATE_DONE \<longrightarrow> client_state ss' = RTMP_STATE_DONE"
  proof
    assume "client_state ss = RTMP_STATE_DONE"
    with assms have "6 \<le> state_num (client_state ss')" by (simp add: advances_def)
    then show "client_state ss' = RTMP_STATE_DONE" by (simp only: state_num_DONE)
  qed
  show "server_state ss = RTMP_STATE_DONE \<longrightarrow> server_state ss' = RTMP_STATE_DONE"
  proof
    assume "server_state ss = RTMP_STATE_DONE"
    with assms have "6 \<le> state_num (server_state ss')" by (simp add: advances_def)
    then show "server_state ss' = RTMP_STATE_DONE" by (simp only: state_num_DONE)
  qed
qed

subsection \<open>States never move backwards\<close>

text \<open>
  C10.  Whatever a call returns, each side's state is afterwards at or past its
  value before the call, in the order of the enumeration; the same holds over
  any sequence of calls, so a side in \<open>RTMP_STATE_DONE\<close> stays there.
\<close>

theorem states_never_decrease:
  "state_num (client_state (flow_view asd))
     \<le> state_num (client_state (flow_view (session (rtmp_validate config asd data dir))))
   \<and> state_num (server_state (flow_view asd))
     \<le> state_num (server_state (flow_view (session (rtmp_validate config asd data dir))))
   \<and> advances (flow_view asd) (flow_view (snd (rtmp_calls config asd calls)))
   \<and> (client_state (flow_view asd) = RTMP_STATE_DONE \<longrightarrow>
        client_state (flow_view (snd (rtmp_calls config asd calls))) = RTMP_STATE_DONE)
   \<and> (server_state (flow_view asd) = RTMP_STATE_DONE \<longrightarrow>
        server_state (flow_view (snd (rtmp_calls config asd calls))) = RTMP_STATE_DONE)"
  using rtmp_validate_advances[of asd config data dir] rtmp_calls_advances[of asd config calls]
    advances_DONE[OF rtmp_calls_advances[of asd config calls]]
  by (simp add: advances_def)

theorem states_never_decrease_witness:
  "client_state (flow_view
      \<lparr>flow_data = Some (calloc_ServiceRTMPData\<lparr>client_state := RTMP_STATE_DONE,
         server_state := RTMP_STATE_DONE\<rparr>),
       hsession = None, scan_http_host_url_flag = False, session_packet_count = 0\<rparr>)
     = RTMP_STATE_DONE
   \<and> client_state (flow_view (snd (rtmp_calls
        \<lparr>rtmp_max_packets = 5, referred_appId_disabled = False\<rparr>
        \<lparr>flow_data = Some (calloc_ServiceRTMPData\<lparr>client_state := RTMP_STATE_DONE,
           server_state := RTMP_STATE_DONE\<rparr>),
         hsession = None, scan_http_host_url_flag = False, session_packet_count = 0\<rparr>
        [(1, [7, 7], APP_ID_FROM_INITIATOR), (2, [3], APP_ID_FROM_RESPONDER)])))
     = RTMP_STATE_DONE
   \<and> server_state (flow_view (snd (rtmp_calls
        \<lparr>rtmp_max_packets = 5, referred_appId_disabled = False\<rparr>
        \<lparr>flow_data = Some (calloc_ServiceRTMPData\<lparr>client_state := RTMP_STATE_DONE,
           server_state := RTMP_STATE_DONE\<rparr>),
         hsession = None, scan_http_host_url_flag = False, session_packet_count = 0\<rparr>
        [(1, [7, 7], APP_ID_FROM_INITIATOR), (2, [3], APP_ID_FROM_RESPONDER)])))
     = RTMP_STATE_DONE"
  using states_never_decrease[of
      "\<lparr>flow_data = Some (calloc_ServiceRTMPData\<lparr>client_state := RTMP_STATE_DONE,
           server_state := RTMP_STATE_DONE\<rparr>),
        hsession = None, scan_http_host_url_flag = False, session_packet_count = 0\<rparr>"
      "\<lparr>rtmp_max_packets = 5, referred_appId_disabled = False\<rparr>"
      "[]" APP_ID_FROM_INITIATOR
      "[(1, [7, 7], APP_ID_FROM_INITIATOR), (2, [3], APP_ID_FROM_RESPONDER)]"]
  by (simp add: flow_view_def calloc_ServiceRTMPData_def)

subsection \<open>The failure exit\<close>

lemma code_validate [simp]:
  "code (validate_success config ss asd) = SERVICE_SUCCESS"
  "code (validate_fail ss asd) = SERVICE_NOMATCH"
  "code (validate_inprocess asd) = SERVICE_INPROCESS"
  by (simp_all add: validate_success_def validate_fail_def validate_inprocess_def
      split: prod.splits)

lemma flow_at_exit_keeps_strings: "keeps_strings (flow_view asd) (flow_at_exit asd data dir)"
  by (cases "consume_packet (flow_view asd) data dir")
     (auto simp: flow_at_exit_def intro: consume_packet_keeps_strings)

lemma snort_free_kept:
  assumes "keeps_strings ss ss'"
  shows "set (snort_free (swfUrl ss)) \<subseteq> set (snort_free (swfUrl ss') @ snort_free (pageUrl ss'))"
    and "set (snort_free (pageUrl ss)) \<subseteq> set (snort_free (swfUrl ss') @ snort_free (pageUrl ss'))"
  using assms by (auto simp: keeps_strings_def snort_free_def split: option.splits)

lemma rtmp_validate_NOMATCH:
  assumes "code (rtmp_validate config asd data dir) = SERVICE_NOMATCH"
  shows "rtmp_validate config asd data dir = validate_fail (flow_at_exit asd data dir) asd"
proof (cases "data = []")
  case True
  with assms show ?thesis by (simp add: rtmp_validate_def validate_inprocess_def)
next
  case False
  then show ?thesis
  proof (cases rule: rtmp_validate_cases[where config = config and asd = asd and dir = dir])
    case (fail_loop s)
    then show ?thesis by (simp add: flow_at_exit_def)
  next
    case (success s)
    with assms show ?thesis by (simp add: validate_success_def split: prod.splits)
  next
    case (ceiling s)
    then show ?thesis by (simp add: flow_at_exit_def)
  next
    case (inprocess s)
    with assms show ?thesis by (simp add: validate_inprocess_def)
  qed
qed

text \<open>
  C7.  A call that returns the failure code has left through the \<open>fail\<close>
  label: both strings of the flow data as it was at the jump (those held on
  entry, and any the call itself captured) are handed to \<open>snort_free\<close>, and
  both fields are null when the call returns.
\<close>

theorem failure_releases_strings:
  assumes "code (rtmp_validate config asd data dir) = SERVICE_NOMATCH"
  shows "swfUrl (flow_view (session (rtmp_validate config asd data dir))) = None
    \<and> pageUrl (flow_view (session (rtmp_validate config asd data dir))) = None
    \<and> flow_data (session (rtmp_validate config asd data dir))
        = Some ((flow_at_exit asd data dir)\<lparr>swfUrl := None, pageUrl := None\<rparr>)
    \<and> freed (rtmp_validate config asd data dir)
        = snort_free (swfUrl (flow_at_exit asd data dir))
          @ snort_free (pageUrl (flow_at_exit asd data dir))
    \<and> set (snort_free (swfUrl (flow_view asd))) \<subseteq> set (freed (rtmp_validate config asd data dir))
    \<and> set (snort_free (pageUrl (flow_view asd))) \<subseteq> set (freed (rtmp_validate config asd data dir))"
proof -
  have r: "rtmp_validate config asd data dir = validate_fail (flow_at_exit asd data dir) asd"
    using assms by (rule rtmp_validate_NOMATCH)
  have fr: "freed (rtmp_validate config asd data dir)
        = snort_free (swfUrl (flow_at_exit asd data dir))
          @ snort_free (pageUrl (flow_at_exit asd data dir))"
    by (simp add: r validate_fail_def)
  have fd: "flow_data (session (rtmp_validate config asd data dir))
        = Some ((flow_at_exit asd data dir)\<lparr>swfUrl := None, pageUrl := None\<rparr>)"
    by (simp add: r validate_fail_def)
  have cleared: "swfUrl (flow_view (session (rtmp_validate config asd data dir))) = None"
      "pageUrl (flow_view (session (rtmp_validate config asd data dir))) = None"
    by (simp_all add: r)
  from snort_free_kept[OF flow_at_exit_keeps_strings[of asd data dir]] fr fd cleared
  show ?thesis by simp
qed

theorem failure_releases_strings_witness:
  "code (rtmp_validate \<lparr>rtmp_max_packets = 5, referred_appId_disabled = False\<rparr>
      \<lparr>flow_data = Some (calloc_ServiceRTMPData\<lparr>swfUrl := Some [104]\<rparr>),
       hsession = None, scan_http_host_url_flag = False, session_packet_count = 0\<rparr>
      [4] APP_ID_FROM_INITIATOR) = SERVICE_NOMATCH
   \<and> swfUrl (flow_view (session (rtmp_validate
        \<lparr>rtmp_max_packets = 5, referred_appId_disabled = False\<rparr>
        \<lparr>flow_data = Some (calloc_ServiceRTMPData\<lparr>swfUrl := Some [104]\<rparr>),
         hsession = None, scan_http_host_url_flag = False, session_packet_count = 0\<rparr>
        [4] APP_ID_FROM_INITIATOR))) = None
   \<and> [104] \<in> set (freed (rtmp_validate
        \<lparr>rtmp_max_packets = 5, referred_appId_disabled = False\<rparr>
        \<lparr>flow_data = Some (calloc_ServiceRTMPData\<lparr>swfUrl := Some [104]\<rparr>),
         hsession = None, scan_http_host_url_flag = False, session_packet_count = 0\<rparr>
        [4] APP_ID_FROM_INITIATOR))"
proof -
  let ?config = "\<lparr>rtmp_max_packets = 5, referred_appId_disabled = False\<rparr>"
  let ?asd = "\<lparr>flow_data = Some (calloc_ServiceRTMPData\<lparr>swfUrl := Some [104]\<rparr>),
       hsession = None, scan_http_host_url_flag = False, session_packet_count = 0\<rparr>"
  have h: "code (rtmp_validate ?config ?asd [4] APP_ID_FROM_INITIATOR) = SERVICE_NOMATCH"
    by (simp add: rtmp_validate_def consume_packet_def client_loop_step client_switch_def
        client_case_INIT_def calloc_ServiceRTMPData_def RTMP_VER_3_def validate_fail_def)
  have v: "snort_free (swfUrl (flow_view ?asd)) = [[104]]"
    by (simp add: flow_view_def snort_free_def)
  note t = failure_releases_strings[OF h]
  have c1: "swfUrl (flow_view (session (rtmp_validate ?config ?asd [4] APP_ID_FROM_INITIATOR)))
      = None"
    by (rule t[THEN conjunct1])
  have "set (snort_free (swfUrl (flow_view ?asd)))
      \<subseteq> set (freed (rtmp_validate ?config ?asd [4] APP_ID_FROM_INITIATOR))"
    by (rule t[THEN conjunct2, THEN conjunct2, THEN conjunct2, THEN conjunct2, THEN conjunct1])
  then have c5: "[104] \<in> set (freed (rtmp_validate ?config ?asd [4] APP_ID_FROM_INITIATOR))"
    unfolding v by simp
  from h c1 c5 show ?thesis by (intro conjI)
qed

subsection \<open>The success exit\<close>

lemma validate_success_hsession:
  "url (hsession_view (session (validate_success config ss asd)))
     = (if url (hsession_view asd) = None then swfUrl ss else url (hsession_view asd))"
  "referer (hsession_view (session (validate_success config ss asd)))
     = (if referer (hsession_view asd) = None \<and> \<not> referred_appId_disabled config
        then pageUrl ss else referer (hsession_view asd))"
  "freed (validate_success config ss asd)
     = (if url (hsession_view asd) = None then [] else snort_free (swfUrl ss))
       @ (if referer (hsession_view asd) = None \<and> \<not> referred_appId_disabled config
          then [] else snort_free (pageUrl ss))"
  "scan_http_host_url_flag (session (validate_success config ss asd))
     = (scan_http_host_url_flag asd \<or> (swfUrl ss \<noteq> None \<and> url (hsession_view asd) = None))"
  by (auto simp: validate_success_def success_swfUrl_def success_pageUrl_def hsession_view_def
      calloc_httpSession_def snort_free_def Let_def split: option.splits)

lemma rtmp_validate_SUCCESS:
  assumes "code (rtmp_validate config asd data dir) = SERVICE_SUCCESS"
  shows "rtmp_validate config asd data dir = validate_success config (flow_at_exit asd data dir) asd
    \<and> client_state (flow_at_exit asd data dir) = RTMP_STATE_DONE
    \<and> server_state (flow_at_exit asd data dir) = RTMP_STATE_DONE"
proof (cases "data = []")
  case True
  with assms show ?thesis by (simp add: rtmp_validate_def validate_inprocess_def)
next
  case False
  then show ?thesis
  proof (cases rule: rtmp_validate_cases[where config = config and asd = asd and dir = dir])
    case (fail_loop s)
    with assms show ?thesis by (simp add: validate_fail_def)
  next
    case (success s)
    then show ?thesis by (simp add: flow_at_exit_def)
  next
    case (ceiling s)
    with assms show ?thesis by (simp add: validate_fail_def)
  next
    case (inprocess s)
    with assms show ?thesis by (simp add: validate_inprocess_def)
  qed
qed

text \<open>
  C8.  A call that returns the success code has left through the \<open>success\<close>
  label with both sides done.  With \<open>ss\<close> the flow data at that moment: the
  URL field of the session record receives \<open>swfUrl ss\<close> exactly when the field
  was empty, and keeps its value otherwise, the captured string being freed;
  the referer field receives \<open>pageUrl ss\<close> exactly when the field was empty and
  referrer capture is not disabled, and keeps its value otherwise, the captured
  string being freed; and both strings of the flow data are null afterwards.
  (A string that was not captured is null: nothing is handed over, nothing freed.)
\<close>

theorem success_hands_over_strings:
  assumes "code (rtmp_validate config asd data dir) = SERVICE_SUCCESS"
  shows "client_state (flow_at_exit asd data dir) = RTMP_STATE_DONE
    \<and> server_state (flow_at_exit asd data dir) = RTMP_STATE_DONE
    \<and> url (hsession_view (session (rtmp_validate config asd data dir)))
        = (if url (hsession_view asd) = None then swfUrl (flow_at_exit asd data dir)
           else url (hsession_view asd))
    \<and> referer (hsession_view (session (rtmp_validate config asd data dir)))
        = (if referer (hsession_view asd) = None \<and> \<not> referred_appId_disabled config
           then pageUrl (flow_at_exit asd data dir) else referer (hsession_view asd))
    \<and> freed (rtmp_validate config asd data dir)
        = (if url (hsession_view asd) = None then []
           else snort_free (swfUrl (flow_at_exit asd data dir)))
          @ (if referer (hsession_view asd) = None \<and> \<not> referred_appId_disabled config
             then [] else snort_free (pageUrl (flow_at_exit asd data dir)))
    \<and> swfUrl (flow_view (session (rtmp_validate config asd data dir))) = None
    \<and> pageUrl (flow_view (session (rtmp_validate config asd data dir))) = None"
  using rtmp_validate_SUCCESS[OF assms]
  by (simp add: validate_success_hsession)

theorem success_hands_over_strings_witness:
  "code (rtmp_validate \<lparr>rtmp_max_packets = 5, referred_appId_disabled = False\<rparr>
      \<lparr>flow_data = Some \<lparr>client_state = RTMP_STATE_DONE, server_state = RTMP_STATE_DONE,
          client_bytes_left = 0, server_bytes_left = 0,
          swfUrl = Some [104], pageUrl = Some [105]\<rparr>,
       hsession = Some \<lparr>url = None, referer = Some [106]\<rparr>,
       scan_http_host_url_flag = False, session_packet_count = 0\<rparr>
      [0] APP_ID_FROM_RESPONDER) = SERVICE_SUCCESS
   \<and> swfUrl (flow_view (session (rtmp_validate
        \<lparr>rtmp_max_packets = 5, referred_appId_disabled = False\<rparr>
        \<lparr>flow_data = Some \<lparr>client_state = RTMP_STATE_DONE, server_state = RTMP_STATE_DONE,
            client_bytes_left = 0, server_bytes_left = 0,
            swfUrl = Some [104], pageUrl = Some [105]\<rparr>,
         hsession = Some \<lparr>url = None, referer = Some [106]\<rparr>,
         scan_http_host_url_flag = False, session_packet_count = 0\<rparr>
        [0] APP_ID_FROM_RESPONDER))) = None"
proof -
  let ?config = "\<lparr>rtmp_max_packets = 5, referred_appId_disabled = False\<rparr>"
  let ?asd = "\<lparr>flow_data = Some \<lparr>client_state = RTMP_STATE_DONE, server_state = RTMP_STATE_DONE,
          client_bytes_left = 0, server_bytes_left = 0,
          swfUrl = Some [104], pageUrl = Some [105]\<rparr>,
       hsession = Some \<lparr>url = None, referer = Some [106]\<rparr>,
       scan_http_host_url_flag = False, session_packet_count = 0\<rparr>"
  have h: "code (rtmp_validate ?config ?asd [0] APP_ID_FROM_RESPONDER) = SERVICE_SUCCESS"
    by (simp add: rtmp_validate_def consume_packet_def server_loop_step server_loop_Nil
        server_switch_def server_case_DONE_def Let_def)
  from success_hands_over_strings[OF h] h show ?thesis by simp
qed

subsection \<open>The handshake byte budget\<close>

lemma nonempty_of_length: "length d = Suc n \<Longrightarrow> d \<noteq> []"
  by auto

lemma client_budget_short:
  assumes "client_state ss = RTMP_STATE_SENDING_HANDSHAKE1
           \<or> client_state ss = RTMP_STATE_SENDING_HANDSHAKE2"
    and "d \<noteq> []" and "length d < client_bytes_left ss"
  shows "client_loop ss d = Inr (ss\<lparr>client_bytes_left := client_bytes_left ss - length d\<rparr>)"
  using assms
  by (auto simp: client_loop_step client_loop_Nil client_switch_def
      client_case_SENDING_HANDSHAKE1_def client_case_SENDING_HANDSHAKE2_def)

lemma client_budget_complete1:
  assumes "client_state ss = RTMP_STATE_SENDING_HANDSHAKE1"
    and "d \<noteq> []" and "client_bytes_left ss \<le> length d"
  shows "client_loop ss d
         = client_loop (ss\<lparr>client_state := RTMP_STATE_SENT_HANDSHAKE1\<rparr>)
             (drop (client_bytes_left ss) d)"
  using assms
  by (simp add: client_loop_step client_switch_def client_case_SENDING_HANDSHAKE1_def)

lemma client_budget_complete2:
  assumes "client_state ss = RTMP_STATE_SENDING_HANDSHAKE2"
    and "d \<noteq> []" and "client_bytes_left ss \<le> length d"
  shows "client_loop ss d
         = client_loop (ss\<lparr>client_state := RTMP_STATE_SENT_HANDSHAKE2\<rparr>)
             (drop (client_bytes_left ss) d)"
  using assms
  by (simp add: client_loop_step client_switch_def client_case_SENDING_HANDSHAKE2_def)

lemma server_budget_short:
  assumes "server_state ss = RTMP_STATE_SENDING_HANDSHAKE1
           \<or> server_state ss = RTMP_STATE_SENDING_HANDSHAKE2"
    and "d \<noteq> []" and "length d < server_bytes_left ss"
  shows "server_loop ss d = Inr (ss\<lparr>server_bytes_left := server_bytes_left ss - length d\<rparr>)"
  using assms
  by (auto simp: server_loop_step server_loop_Nil server_switch_def
      server_case_SENDING_HANDSHAKE1_def server_case_SENDING_HANDSHAKE2_def)

lemma server_budget_complete1:
  assumes "server_state ss = RTMP_STATE_SENDING_HANDSHAKE1"
    and "d \<noteq> []" and "server_bytes_left ss \<le> length d"
  shows "server_loop ss d
         = server_loop (ss\<lparr>server_state := RTMP_STATE_SENT_HANDSHAKE1\<rparr>)
             (drop (server_bytes_left ss) d)"
  using assms
  by (simp add: server_loop_step server_switch_def server_case_SENDING_HANDSHAKE1_def)

lemma server_budget_complete2:
  assumes "server_state ss = RTMP_STATE_SENDING_HANDSHAKE2"
    and "d \<noteq> []" and "server_bytes_left ss \<le> length d"
  shows "server_case_SENDING_HANDSHAKE2 ss d
         = server_case_SENT_HANDSHAKE2 (ss\<lparr>server_state := RTMP_STATE_SENT_HANDSHAKE2\<rparr>)
             (drop (server_bytes_left ss) d)"
    and "server_loop ss d = Inr (ss\<lparr>server_state := RTMP_STATE_DONE\<rparr>)"
  using assms
  by (simp_all add: server_loop_step server_loop_Nil server_switch_def
      server_case_SENDING_HANDSHAKE2_def server_case_SENT_HANDSHAKE2_def server_case_DONE_def)

text \<open>
  C5, as the code has it.  With a budget of 1536 bytes, 1535 bytes leave a
  budget of one byte and the next byte completes it; 1536 bytes complete it in
  one call; of 1537 bytes the last one is left to the processing of the next
  state in the same call.  The client side (either handshake block) and the
  server side in its first block are then in the Sent state.  The server side
  in its second block does not stop in \<open>RTMP_STATE_SENT_HANDSHAKE2\<close>: the case
  falls through, so the call that completes the budget ends with the server
  side in \<open>RTMP_STATE_DONE\<close> and every byte consumed.
\<close>

theorem handshake_budget_exact:
  assumes "length d1535 = 1535" and "length d1 = 1"
    and "length d1536 = 1536" and "length d1537 = 1537"
  shows "(client_state ss = RTMP_STATE_SENDING_HANDSHAKE1
          \<and> client_bytes_left ss = RTMP_HANDSHAKE1_SIZE \<longrightarrow>
            client_loop ss d1535 = Inr (ss\<lparr>client_bytes_left := 1\<rparr>)
          \<and> client_loop (ss\<lparr>client_bytes_left := 1\<rparr>) d1
              = Inr (ss\<lparr>client_bytes_left := 1, client_state := RTMP_STATE_SENT_HANDSHAKE1\<rparr>)
          \<and> client_loop ss d1536 = Inr (ss\<lparr>client_state := RTMP_STATE_SENT_HANDSHAKE1\<rparr>)
          \<and> client_loop ss d1537
              = client_loop (ss\<lparr>client_state := RTMP_STATE_SENT_HANDSHAKE1\<rparr>) [d1537 ! 1536])
     \<and> (client_state ss = RTMP_STATE_SENDING_HANDSHAKE2
          \<and> client_bytes_left ss = RTMP_HANDSHAKE2_SIZE \<longrightarrow>
            client_loop ss d1535 = Inr (ss\<lparr>client_bytes_left := 1\<rparr>)
          \<and> client_loop (ss\<lparr>client_bytes_left := 1\<rparr>) d1
              = Inr (ss\<lparr>client_bytes_left := 1, client_state := RTMP_STATE_SENT_HANDSHAKE2\<rparr>)
          \<and> client_loop ss d1536 = Inr (ss\<lparr>client_state := RTMP_STATE_SENT_HANDSHAKE2\<rparr>)
          \<and> client_loop ss d1537
              = client_loop (ss\<lparr>client_state := RTMP_STATE_SENT_HANDSHAKE2\<rparr>) [d1537 ! 1536])
     \<and> (server_state ss = RTMP_STATE_SENDING_HANDSHAKE1
          \<and> server_bytes_left ss = RTMP_HANDSHAKE1_SIZE \<longrightarrow>
            server_loop ss d1535 = Inr (ss\<lparr>server_bytes_left := 1\<rparr>)
          \<and> server_loop (ss\<lparr>server_bytes_left := 1\<rparr>) d1
              = Inr (ss\<lparr>server_bytes_left := 1, server_state := RTMP_STATE_SENT_HANDSHAKE1\<rparr>)
          \<and> server_loop ss d1536 = Inr (ss\<lparr>server_state := RTMP_STATE_SENT_HANDSHAKE1\<rparr>)
          \<and> server_loop ss d1537
              = server_loop (ss\<lparr>server_state := RTMP_STATE_SENT_HANDSHAKE1\<rparr>) [d1537 ! 1536])
     \<and> (server_state ss = RTMP_STATE_SENDING_HANDSHAKE2
          \<and> server_bytes_left ss = RTMP_HANDSHAKE2_SIZE \<longrightarrow>
            server_loop ss d1535 = Inr (ss\<lparr>server_bytes_left := 1\<rparr>)
          \<and> server_loop (ss\<lparr>server_bytes_left := 1\<rparr>) d1
              = Inr (ss\<lparr>server_bytes_left := 1, server_state := RTMP_STATE_DONE\<rparr>)
          \<and> server_loop ss d1536 = Inr (ss\<lparr>server_state := RTMP_STATE_DONE\<rparr>)
          \<and> server_case_SENDING_HANDSHAKE2 ss d1537
              = server_case_SENT_HANDSHAKE2 (ss\<lparr>server_state := RTMP_STATE_SENT_HANDSHAKE2\<rparr>)
                  [d1537 ! 1536]
          \<and> server_loop ss d1537 = Inr (ss\<lparr>server_state := RTMP_STATE_DONE\<rparr>))"
proof -
  have ne: "d1535 \<noteq> []" "d1 \<noteq> []" "d1536 \<noteq> []" "d1537 \<noteq> []"
    using assms by auto
  have "d1537 ! 1536 # drop (Suc 1536) d1537 = drop 1536 d1537"
    using assms by (intro Cons_nth_drop_Suc) simp
  then have last: "drop 1536 d1537 = [d1537 ! 1536]"
    using assms by simp
  have rest: "drop 1536 d1536 = []" "drop 1536 d1537 = [d1537 ! 1536]" "drop 1 d1 = []"
    using assms last by simp_all
  show ?thesis
  proof (intro conjI impI; elim conjE)
    assume s: "client_state ss = RTMP_STATE_SENDING_HANDSHAKE1"
      and b: "client_bytes_left ss = RTMP_HANDSHAKE1_SIZE"
    show "client_loop ss d1535 = Inr (ss\<lparr>client_bytes_left := 1\<rparr>)"
      using client_budget_short[of ss d1535] s b ne assms
      by (simp add: RTMP_HANDSHAKE1_SIZE_def)
    show "client_loop (ss\<lparr>client_bytes_left := 1\<rparr>) d1
        = Inr (ss\<lparr>client_bytes_left := 1, client_state := RTMP_STATE_SENT_HANDSHAKE1\<rparr>)"
      using client_budget_complete1[of "ss\<lparr>client_bytes_left := 1\<rparr>" d1] s ne assms rest
      by (simp add: client_loop_Nil)
    show "client_loop ss d1536 = Inr (ss\<lparr>client_state := RTMP_STATE_SENT_HANDSHAKE1\<rparr>)"
      using client_budget_complete1[of ss d1536] s b ne assms rest
      by (simp add: RTMP_HANDSHAKE1_SIZE_def client_loop_Nil)
    show "client_loop ss d1537
        = client_loop (ss\<lparr>client_state := RTMP_STATE_SENT_HANDSHAKE1\<rparr>) [d1537 ! 1536]"
      using client_budget_complete1[of ss d1537] s b ne assms rest
      by (simp add: RTMP_HANDSHAKE1_SIZE_def)
  next
    assume s: "client_state ss = RTMP_STATE_SENDING_HANDSHAKE2"
      and b: "client_bytes_left ss = RTMP_HANDSHAKE2_SIZE"
    show "client_loop ss d1535 = Inr (ss\<lparr>client_bytes_left := 1\<rparr>)"
      using client_budget_short[of ss d1535] s b ne assms
      by (simp add: RTMP_HANDSHAKE2_SIZE_def)
    show "client_loop (ss\<lparr>client_bytes_left := 1\<rparr>) d1
        = Inr (ss\<lparr>client_bytes_left := 1, client_state := RTMP_STATE_SENT_HANDSHAKE2\<rparr>)"
      using client_budget_complete2[of "ss\<lparr>client_bytes_left := 1\<rparr>" d1] s ne assms rest
      by (simp add: client_loop_Nil)
    show "client_loop ss d1536 = Inr (ss\<lparr>client_state := RTMP_STATE_SENT_HANDSHAKE2\<rparr>)"
      using client_budget_complete2[of ss d1536] s b ne assms rest
      by (simp add: RTMP_HANDSHAKE2_SIZE_def client_loop_Nil)
    show "client_loop ss d1537
        = client_loop (ss\<lparr>client_state := RTMP_STATE_SENT_HANDSHAKE2\<rparr>) [d1537 ! 1536]"
      using client_budget_complete2[of ss d1537] s b ne assms rest
      by (simp add: RTMP_HANDSHAKE2_SIZE_def)
  next
    assume s: "server_state ss = RTMP_STATE_SENDING_HANDSHAKE1"
      and b: "server_bytes_left ss = RTMP_HANDSHAKE1_SIZE"
    show "server_loop ss d1535 = Inr (ss\<lparr>server_bytes_left := 1\<rparr>)"
      using server_budget_short[of ss d1535] s b ne assms
      by (simp add: RTMP_HANDSHAKE1_SIZE_def)
    show "server_loop (ss\<lparr>server_bytes_left := 1\<rparr>) d1
        = Inr (ss\<lparr>server_bytes_left := 1, server_state := RTMP_STATE_SENT_HANDSHAKE1\<rparr>)"
      using server_budget_complete1[of "ss\<lparr>server_bytes_left := 1\<rparr>" d1] s ne assms rest
      by (simp add: server_loop_Nil)
    show "server_loop ss d1536 = Inr (ss\<lparr>server_state := RTMP_STATE_SENT_HANDSHAKE1\<rparr>)"
      using server_budget_complete1[of ss d1536] s b ne assms rest
      by (simp add: RTMP_HANDSHAKE1_SIZE_def server_loop_Nil)
    show "server_loop ss d1537
        = server_loop (ss\<lparr>server_state := RTMP_STATE_SENT_HANDSHAKE1\<rparr>) [d1537 ! 1536]"
      using server_budget_complete1[of ss d1537] s b ne assms rest
      by (simp add: RTMP_HANDSHAKE1_SIZE_def)
  next
    assume s: "server_state ss = RTMP_STATE_SENDING_HANDSHAKE2"
      and b: "server_bytes_left ss = RTMP_HANDSHAKE2_SIZE"
    show "server_loop ss d1535 = Inr (ss\<lparr>server_bytes_left := 1\<rparr>)"
      using server_budget_short[of ss d1535] s b ne assms
      by (simp add: RTMP_HANDSHAKE2_SIZE_def)
    show "server_loop (ss\<lparr>server_bytes_left := 1\<rparr>) d1
        = Inr (ss\<lparr>server_bytes_left := 1, server_state := RTMP_STATE_DONE\<rparr>)"
      using server_budget_complete2(2)[of "ss\<lparr>server_bytes_left := 1\<rparr>" d1] s ne assms
      by simp
    show "server_loop ss d1536 = Inr (ss\<lparr>server_state := RTMP_STATE_DONE\<rparr>)"
      using server_budget_complete2(2)[of ss d1536] s b ne assms
      by (simp add: RTMP_HANDSHAKE2_SIZE_def)
    show "server_case_SENDING_HANDSHAKE2 ss d1537
        = server_case_SENT_HANDSHAKE2 (ss\<lparr>server_state := RTMP_STATE_SENT_HANDSHAKE2\<rparr>)
            [d1537 ! 1536]"
      using server_budget_complete2(1)[of ss d1537] s b ne assms rest
      by (simp add: RTMP_HANDSHAKE2_SIZE_def)
    show "server_loop ss d1537 = Inr (ss\<lparr>server_state := RTMP_STATE_DONE\<rparr>)"
      using server_budget_complete2(2)[of ss d1537] s b ne assms
      by (simp add: RTMP_HANDSHAKE2_SIZE_def)
  qed
qed

theorem handshake_budget_exact_witness:
  "length (replicate 1535 (0 :: u8)) = 1535 \<and> length [0 :: u8] = 1
   \<and> length (replicate 1536 (0 :: u8)) = 1536 \<and> length (replicate 1537 (0 :: u8)) = 1537
   \<and> client_loop
        (calloc_ServiceRTMPData\<lparr>client_state := RTMP_STATE_SENDING_HANDSHAKE1,
           client_bytes_left := 1536\<rparr>) (replicate 1535 0)
      = Inr (calloc_ServiceRTMPData\<lparr>client_state := RTMP_STATE_SENDING_HANDSHAKE1,
           client_bytes_left := 1\<rparr>)
   \<and> client_loop
        (calloc_ServiceRTMPData\<lparr>client_state := RTMP_STATE_SENDING_HANDSHAKE2,
           client_bytes_left := 1536\<rparr>) (replicate 1536 0)
      = Inr (calloc_ServiceRTMPData\<lparr>client_state := RTMP_STATE_SENT_HANDSHAKE2,
           client_bytes_left := 1536\<rparr>)
   \<and> server_loop
        (calloc_ServiceRTMPData\<lparr>server_state := RTMP_STATE_SENDING_HANDSHAKE1,
           server_bytes_left := 1536\<rparr>) (replicate 1536 0)
      = Inr (calloc_ServiceRTMPData\<lparr>server_state := RTMP_STATE_SENT_HANDSHAKE1,
           server_bytes_left := 1536\<rparr>)
   \<and> server_loop
        (calloc_ServiceRTMPData\<lparr>server_state := RTMP_STATE_SENDING_HANDSHAKE2,
           server_bytes_left := 1536\<rparr>) (replicate 1536 0)
      = Inr (calloc_ServiceRTMPData\<lparr>server_state := RTMP_STATE_DONE,
           server_bytes_left := 1536\<rparr>)"
proof -
  have len: "length (replicate 1535 (0 :: u8)) = 1535" "length [0 :: u8] = 1"
    "length (replicate 1536 (0 :: u8)) = 1536" "length (replicate 1537 (0 :: u8)) = 1537"
    by simp_all
  note t = handshake_budget_exact[OF len]
  show ?thesis
    using len
      t[of "calloc_ServiceRTMPData\<lparr>client_state := RTMP_STATE_SENDING_HANDSHAKE1,
           client_bytes_left := 1536\<rparr>"]
      t[of "calloc_ServiceRTMPData\<lparr>client_state := RTMP_STATE_SENDING_HANDSHAKE2,
           client_bytes_left := 1536\<rparr>"]
      t[of "calloc_ServiceRTMPData\<lparr>server_state := RTMP_STATE_SENDING_HANDSHAKE1,
           server_bytes_left := 1536\<rparr>"]
      t[of "calloc_ServiceRTMPData\<lparr>server_state := RTMP_STATE_SENDING_HANDSHAKE2,
           server_bytes_left := 1536\<rparr>"]
    by (simp add: calloc_ServiceRTMPData_def RTMP_HANDSHAKE1_SIZE_def RTMP_HANDSHAKE2_SIZE_def)
qed

text \<open>
  C5 as stated fails for the server's second block: in
  \<open>RTMP_STATE_SENDING_HANDSHAKE2\<close> with a budget of 1536, a packet of exactly
  1536 bytes from the server leaves the server side in \<open>RTMP_STATE_DONE\<close>, not
  in \<open>RTMP_STATE_SENT_HANDSHAKE2\<close>.
\<close>

theorem server_second_block_ends_done:
  "server_state (flow_view
      \<lparr>flow_data = Some \<lparr>client_state = RTMP_STATE_SENT_HANDSHAKE1,
          server_state = RTMP_STATE_SENDING_HANDSHAKE2, client_bytes_left = 0,
          server_bytes_left = 1536, swfUrl = None, pageUrl = None\<rparr>,
       hsession = None, scan_http_host_url_flag = False, session_packet_count = 0\<rparr>)
     = RTMP_STATE_SENDING_HANDSHAKE2
   \<and> length (replicate 1536 (0 :: u8)) = 1536
   \<and> server_state (flow_view (session (rtmp_validate
        \<lparr>rtmp_max_packets = 5, referred_appId_disabled = False\<rparr>
        \<lparr>flow_data = Some \<lparr>client_state = RTMP_STATE_SENT_HANDSHAKE1,
            server_state = RTMP_STATE_SENDING_HANDSHAKE2, client_bytes_left = 0,
            server_bytes_left = 1536, swfUrl = None, pageUrl = None\<rparr>,
         hsession = None, scan_http_host_url_flag = False, session_packet_count = 0\<rparr>
        (replicate 1536 0) APP_ID_FROM_RESPONDER)))
     \<noteq> RTMP_STATE_SENT_HANDSHAKE2"
proof -
  let ?ss = "\<lparr>client_state = RTMP_STATE_SENT_HANDSHAKE1,
          server_state = RTMP_STATE_SENDING_HANDSHAKE2, client_bytes_left = 0,
          server_bytes_left = 1536, swfUrl = None, pageUrl = None\<rparr>"
  have loop: "server_loop ?ss (replicate 1536 0) = Inr (?ss\<lparr>server_state := RTMP_STATE_DONE\<rparr>)"
    by (rule server_budget_complete2(2)) simp_all
  show ?thesis
    by (simp add: rtmp_validate_def consume_packet_def loop[simplified] flow_view_def
        validate_inprocess_def)
qed

subsection \<open>The ordering between the two sides\<close>

lemma client_switch_order:
  assumes "client_switch ss data = Break ss' data'" and "handshake_order ss"
  shows "handshake_order ss'"
  using assms
  by (cases "client_state ss";
      auto simp: client_switch_defs handshake_order_def captures_only_def
        split: if_splits prod.splits dest!: parse_rtmp_message_captures_only)

lemma server_switch_order:
  assumes "server_switch ss data = Break ss' data'" and "handshake_order ss"
  shows "handshake_order ss'"
  using assms
  by (cases "server_state ss";
      auto simp: server_switch_defs handshake_order_def split: if_splits)

lemma client_loop_order:
  assumes "client_loop ss data = Inr ss'" and "handshake_order ss"
  shows "handshake_order ss'"
  using client_loop_rule[where R = "\<lambda>a b. handshake_order a \<longrightarrow> handshake_order b"
      and F = "\<lambda>a b. True" and ss = ss and data = data and ss' = ss'] assms
  by (blast intro: client_switch_order)

lemma server_loop_order:
  assumes "server_loop ss data = Inr ss'" and "handshake_order ss"
  shows "handshake_order ss'"
  using server_loop_rule[where R = "\<lambda>a b. handshake_order a \<longrightarrow> handshake_order b"
      and F = "\<lambda>a b. True" and ss = ss and data = data and ss' = ss'] assms
  by (blast intro: server_switch_order)

lemma consume_packet_order:
  assumes "consume_packet ss data dir = Inr ss'" and "handshake_order ss"
  shows "handshake_order ss'"
  using assms
  by (auto simp: consume_packet_def split: if_splits
      intro: client_loop_order server_loop_order)

lemma handshake_order_strings [simp]:
  "handshake_order (ss\<lparr>swfUrl := a, pageUrl := b\<rparr>) = handshake_order ss"
  by (simp add: handshake_order_def)

lemma rtmp_validate_order:
  assumes "code (rtmp_validate config asd data dir) \<noteq> SERVICE_NOMATCH"
    and "handshake_order (flow_view asd)"
  shows "handshake_order (flow_view (session (rtmp_validate config asd data dir)))"
proof (cases "data = []")
  case True
  with assms show ?thesis by (simp add: rtmp_validate_def validate_inprocess_def)
next
  case False
  then show ?thesis
  proof (cases rule: rtmp_validate_cases[where config = config and asd = asd and dir = dir])
    case (fail_loop s)
    with assms show ?thesis by simp
  next
    case (success s)
    with assms consume_packet_order[OF success(1)] show ?thesis by simp
  next
    case (ceiling s)
    with assms show ?thesis by simp
  next
    case (inprocess s)
    with assms consume_packet_order[OF inprocess(1)] show ?thesis by simp
  qed
qed

lemma handshake_order_calloc: "handshake_order calloc_ServiceRTMPData"
  by (simp add: handshake_order_def calloc_ServiceRTMPData_def)

lemma rtmp_calls_order:
  assumes "SERVICE_NOMATCH \<notin> set (fst (rtmp_calls config asd calls))"
    and "handshake_order (flow_view asd)"
  shows "handshake_order (flow_view (snd (rtmp_calls config asd calls)))"
  using assms
proof (induction calls arbitrary: asd)
  case Nil
  then show ?case by simp
next
  case (Cons c calls)
  obtain n data dir where c: "c = (n, data, dir)" by (cases c)
  let ?r = "rtmp_validate config (asd\<lparr>session_packet_count := n\<rparr>) data dir"
  have codes: "fst (rtmp_calls config asd (c # calls))
      = code ?r # fst (rtmp_calls config (session ?r) calls)"
    and final: "snd (rtmp_calls config asd (c # calls))
      = snd (rtmp_calls config (session ?r) calls)"
    by (simp_all add: c split: prod.splits)
  from Cons.prems(1) have ok: "code ?r \<noteq> SERVICE_NOMATCH"
    and rest: "SERVICE_NOMATCH \<notin> set (fst (rtmp_calls config (session ?r) calls))"
    unfolding codes by auto
  have "handshake_order (flow_view (session ?r))"
    using rtmp_validate_order[OF ok] Cons.prems(2) by simp
  from Cons.IH[OF rest this] show ?case
    unfolding final .
qed

lemma ordering_jumps:
  "client_state ss = RTMP_STATE_SENT_HANDSHAKE1 \<Longrightarrow>
   state_num (server_state ss) < state_num RTMP_STATE_SENT_HANDSHAKE1 \<Longrightarrow>
   client_switch ss data = Goto_fail ss"
  "server_state ss = RTMP_STATE_INIT \<Longrightarrow>
   state_num (client_state ss) < state_num RTMP_STATE_SENT_HANDSHAKE0 \<Longrightarrow>
   server_switch ss data = Goto_fail ss"
  "server_state ss = RTMP_STATE_SENT_HANDSHAKE1 \<Longrightarrow>
   state_num (client_state ss) < state_num RTMP_STATE_SENT_HANDSHAKE1 \<Longrightarrow>
   server_switch ss data = Goto_fail ss"
  by (simp_all add: client_switch_def client_case_SENT_HANDSHAKE1_def
      server_switch_def server_case_INIT_def server_case_SENT_HANDSHAKE1_def)

lemma rtmp_validate_jump:
  assumes "data \<noteq> []" and "consume_packet (flow_view asd) data dir = Inl ss'"
  shows "code (rtmp_validate config asd data dir) = SERVICE_NOMATCH"
  using assms by (simp add: rtmp_validate_def flow_view_def Let_def)

text \<open>
  C6.  A packet with payload that finds the client in
  \<open>RTMP_STATE_SENT_HANDSHAKE1\<close> while the server is below it fails the flow;
  so does a packet from the server that finds the server in
  \<open>RTMP_STATE_INIT\<close> while the client is below \<open>RTMP_STATE_SENT_HANDSHAKE0\<close>, or
  the server in \<open>RTMP_STATE_SENT_HANDSHAKE1\<close> while the client is below it.  The
  same jump is taken when the state is reached in the middle of a packet, since
  it is the first thing the \<open>switch\<close> does in these states.  Hence after any
  sequence of calls on a new flow none of which failed, the three ordering
  relations hold.
\<close>

theorem handshake_ordering_enforced:
  "(data \<noteq> [] \<and> client_state (flow_view asd) = RTMP_STATE_SENT_HANDSHAKE1
      \<and> state_num (server_state (flow_view asd)) < state_num RTMP_STATE_SENT_HANDSHAKE1 \<longrightarrow>
      code (rtmp_validate config asd data APP_ID_FROM_INITIATOR) = SERVICE_NOMATCH)
   \<and> (data \<noteq> [] \<and> server_state (flow_view asd) = RTMP_STATE_INIT
      \<and> state_num (client_state (flow_view asd)) < state_num RTMP_STATE_SENT_HANDSHAKE0 \<longrightarrow>
      code (rtmp_validate config asd data APP_ID_FROM_RESPONDER) = SERVICE_NOMATCH)
   \<and> (data \<noteq> [] \<and> server_state (flow_view asd) = RTMP_STATE_SENT_HANDSHAKE1
      \<and> state_num (client_state (flow_view asd)) < state_num RTMP_STATE_SENT_HANDSHAKE1 \<longrightarrow>
      code (rtmp_validate config asd data APP_ID_FROM_RESPONDER) = SERVICE_NOMATCH)
   \<and> (client_state ss = RTMP_STATE_SENT_HANDSHAKE1
      \<and> state_num (server_state ss) < state_num RTMP_STATE_SENT_HANDSHAKE1 \<longrightarrow>
      client_switch ss data = Goto_fail ss)
   \<and> (server_state ss = RTMP_STATE_INIT
      \<and> state_num (client_state ss) < state_num RTMP_STATE_SENT_HANDSHAKE0 \<longrightarrow>
      server_switch ss data = Goto_fail ss)
   \<and> (server_state ss = RTMP_STATE_SENT_HANDSHAKE1
      \<and> state_num (client_state ss) < state_num RTMP_STATE_SENT_HANDSHAKE1 \<longrightarrow>
      server_switch ss data = Goto_fail ss)
   \<and> (flow_data asd = None \<and> SERVICE_NOMATCH \<notin> set (fst (rtmp_calls config asd calls)) \<longrightarrow>
      handshake_order (flow_view (snd (rtmp_calls config asd calls))))"
proof (intro conjI impI; elim conjE)
  assume ne: "data \<noteq> []" and c: "client_state (flow_view asd) = RTMP_STATE_SENT_HANDSHAKE1"
    and s: "state_num (server_state (flow_view asd)) < state_num RTMP_STATE_SENT_HANDSHAKE1"
  have "consume_packet (flow_view asd) data APP_ID_FROM_INITIATOR = Inl (flow_view asd)"
    using ne ordering_jumps(1)[OF c s, of data]
    by (simp add: consume_packet_def client_loop_step)
  with ne show "code (rtmp_validate config asd data APP_ID_FROM_INITIATOR) = SERVICE_NOMATCH"
    by (rule rtmp_validate_jump)
next
  assume ne: "data \<noteq> []" and s: "server_state (flow_view asd) = RTMP_STATE_INIT"
    and c: "state_num (client_state (flow_view asd)) < state_num RTMP_STATE_SENT_HANDSHAKE0"
  have "consume_packet (flow_view asd) data APP_ID_FROM_RESPONDER = Inl (flow_view asd)"
    using ne ordering_jumps(2)[OF s c, of data]
    by (simp add: consume_packet_def server_loop_step)
  with ne show "code (rtmp_validate config asd data APP_ID_FROM_RESPONDER) = SERVICE_NOMATCH"
    by (rule rtmp_validate_jump)
next
  assume ne: "data \<noteq> []" and s: "server_state (flow_view asd) = RTMP_STATE_SENT_HANDSHAKE1"
    and c: "state_num (client_state (flow_view asd)) < state_num RTMP_STATE_SENT_HANDSHAKE1"
  have "consume_packet (flow_view asd) data APP_ID_FROM_RESPONDER = Inl (flow_view asd)"
    using ne ordering_jumps(3)[OF s c, of data]
    by (simp add: consume_packet_def server_loop_step)
  with ne show "code (rtmp_validate config asd data APP_ID_FROM_RESPONDER) = SERVICE_NOMATCH"
    by (rule rtmp_validate_jump)
next
  assume "client_state ss = RTMP_STATE_SENT_HANDSHAKE1"
    and "state_num (server_state ss) < state_num RTMP_STATE_SENT_HANDSHAKE1"
  then show "client_switch ss data = Goto_fail ss" by (rule ordering_jumps(1))
next
  assume "server_state ss = RTMP_STATE_INIT"
    and "state_num (client_state ss) < state_num RTMP_STATE_SENT_HANDSHAKE0"
  then show "server_switch ss data = Goto_fail ss" by (rule ordering_jumps(2))
next
  assume "server_state ss = RTMP_STATE_SENT_HANDSHAKE1"
    and "state_num (client_state ss) < state_num RTMP_STATE_SENT_HANDSHAKE1"
  then show "server_switch ss data = Goto_fail ss" by (rule ordering_jumps(3))
next
  assume new: "flow_data asd = None"
    and ok: "SERVICE_NOMATCH \<notin> set (fst (rtmp_calls config asd calls))"
  from new have "handshake_order (flow_view asd)"
    by (simp add: flow_view_def handshake_order_calloc)
  with ok show "handshake_order (flow_view (snd (rtmp_calls config asd calls)))"
    by (rule rtmp_calls_order)
qed

theorem handshake_ordering_enforced_witness:
  "[0 :: u8] \<noteq> []
   \<and> client_state (flow_view
        \<lparr>flow_data = Some (calloc_ServiceRTMPData\<lparr>client_state := RTMP_STATE_SENT_HANDSHAKE1\<rparr>),
         hsession = None, scan_http_host_url_flag = False, session_packet_count = 0\<rparr>)
       = RTMP_STATE_SENT_HANDSHAKE1
   \<and> state_num (server_state (flow_view
        \<lparr>flow_data = Some (calloc_ServiceRTMPData\<lparr>client_state := RTMP_STATE_SENT_HANDSHAKE1\<rparr>),
         hsession = None, scan_http_host_url_flag = False, session_packet_count = 0\<rparr>))
       < state_num RTMP_STATE_SENT_HANDSHAKE1
   \<and> code (rtmp_validate \<lparr>rtmp_max_packets = 5, referred_appId_disabled = False\<rparr>
        \<lparr>flow_data = Some (calloc_ServiceRTMPData\<lparr>client_state := RTMP_STATE_SENT_HANDSHAKE1\<rparr>),
         hsession = None, scan_http_host_url_flag = False, session_packet_count = 0\<rparr>
        [0] APP_ID_FROM_INITIATOR) = SERVICE_NOMATCH
   \<and> server_state (flow_view
        \<lparr>flow_data = None, hsession = None, scan_http_host_url_flag = False,
         session_packet_count = 0\<rparr>) = RTMP_STATE_INIT
   \<and> state_num (client_state (flow_view
        \<lparr>flow_data = None, hsession = None, scan_http_host_url_flag = False,
         session_packet_count = 0\<rparr>)) < state_num RTMP_STATE_SENT_HANDSHAKE0
   \<and> code (rtmp_validate \<lparr>rtmp_max_packets = 5, referred_appId_disabled = False\<rparr>
        \<lparr>flow_data = None, hsession = None, scan_http_host_url_flag = False,
         session_packet_count = 0\<rparr>
        [0] APP_ID_FROM_RESPONDER) = SERVICE_NOMATCH
   \<and> server_state (flow_view
        \<lparr>flow_data = Some (calloc_ServiceRTMPData\<lparr>client_state := RTMP_STATE_SENT_HANDSHAKE0,
           server_state := RTMP_STATE_SENT_HANDSHAKE1\<rparr>),
         hsession = None, scan_http_host_url_flag = False, session_packet_count = 0\<rparr>)
       = RTMP_STATE_SENT_HANDSHAKE1
   \<and> state_num (client_state (flow_view
        \<lparr>flow_data = Some (calloc_ServiceRTMPData\<lparr>client_state := RTMP_STATE_SENT_HANDSHAKE0,
           server_state := RTMP_STATE_SENT_HANDSHAKE1\<rparr>),
         hsession = None, scan_http_host_url_flag = False, session_packet_count = 0\<rparr>))
       < state_num RTMP_STATE_SENT_HANDSHAKE1
   \<and> code (rtmp_validate \<lparr>rtmp_max_packets = 5, referred_appId_disabled = False\<rparr>
        \<lparr>flow_data = Some (calloc_ServiceRTMPData\<lparr>client_state := RTMP_STATE_SENT_HANDSHAKE0,
           server_state := RTMP_STATE_SENT_HANDSHAKE1\<rparr>),
         hsession = None, scan_http_host_url_flag = False, session_packet_count = 0\<rparr>
        [0] APP_ID_FROM_RESPONDER) = SERVICE_NOMATCH
   \<and> client_switch (calloc_ServiceRTMPData\<lparr>client_state := RTMP_STATE_SENT_HANDSHAKE1\<rparr>) [0]
       = Goto_fail (calloc_ServiceRTMPData\<lparr>client_state := RTMP_STATE_SENT_HANDSHAKE1\<rparr>)
   \<and> server_switch calloc_ServiceRTMPData [0] = Goto_fail calloc_ServiceRTMPData
   \<and> server_switch (calloc_ServiceRTMPData\<lparr>client_state := RTMP_STATE_SENT_HANDSHAKE0,
           server_state := RTMP_STATE_SENT_HANDSHAKE1\<rparr>) [0]
       = Goto_fail (calloc_ServiceRTMPData\<lparr>client_state := RTMP_STATE_SENT_HANDSHAKE0,
           server_state := RTMP_STATE_SENT_HANDSHAKE1\<rparr>)
   \<and> SERVICE_NOMATCH \<notin> set (fst (rtmp_calls
        \<lparr>rtmp_max_packets = 5, referred_appId_disabled = False\<rparr>
        \<lparr>flow_data = None, hsession = None, scan_http_host_url_flag = False,
         session_packet_count = 0\<rparr>
        [(0, [3], APP_ID_FROM_INITIATOR), (1, [3], APP_ID_FROM_RESPONDER)]))
   \<and> handshake_order (flow_view (snd (rtmp_calls
        \<lparr>rtmp_max_packets = 5, referred_appId_disabled = False\<rparr>
        \<lparr>flow_data = None, hsession = None, scan_http_host_url_flag = False,
         session_packet_count = 0\<rparr>
        [(0, [3], APP_ID_FROM_INITIATOR), (1, [3], APP_ID_FROM_RESPONDER)])))"
proof -
  let ?config = "\<lparr>rtmp_max_packets = 5, referred_appId_disabled = False\<rparr>"
  let ?new = "\<lparr>flow_data = None, hsession = None, scan_http_host_url_flag = False,
         session_packet_count = 0\<rparr>"
  let ?a1 = "\<lparr>flow_data = Some (calloc_ServiceRTMPData\<lparr>client_state := RTMP_STATE_SENT_HANDSHAKE1\<rparr>),
         hsession = None, scan_http_host_url_flag = False, session_packet_count = 0\<rparr>"
  let ?a3 = "\<lparr>flow_data = Some (calloc_ServiceRTMPData\<lparr>client_state := RTMP_STATE_SENT_HANDSHAKE0,
           server_state := RTMP_STATE_SENT_HANDSHAKE1\<rparr>),
         hsession = None, scan_http_host_url_flag = False, session_packet_count = 0\<rparr>"
  let ?calls = "[(0, [3], APP_ID_FROM_INITIATOR), (1, [3], APP_ID_FROM_RESPONDER)]
      :: (nat \<times> u8 list \<times> direction) list"
  have first: "rtmp_validate ?config ?new [3] APP_ID_FROM_INITIATOR
      = validate_inprocess (?new\<lparr>flow_data :=
          Some (calloc_ServiceRTMPData\<lparr>client_state := RTMP_STATE_SENT_HANDSHAKE0\<rparr>)\<rparr>)"
    by (simp add: rtmp_validate_def consume_packet_def client_loop_step client_loop_Nil
        client_switch_def client_case_INIT_def RTMP_VER_3_def calloc_ServiceRTMPData_def)
  have second: "code (rtmp_validate ?config
        (?new\<lparr>flow_data :=
            Some (calloc_ServiceRTMPData\<lparr>client_state := RTMP_STATE_SENT_HANDSHAKE0\<rparr>),
          session_packet_count := 1\<rparr>) [3] APP_ID_FROM_RESPONDER) = SERVICE_INPROCESS"
    by (simp add: rtmp_validate_def consume_packet_def server_loop_step server_loop_Nil
        server_switch_def server_case_INIT_def RTMP_VER_3_def calloc_ServiceRTMPData_def)
  have run: "SERVICE_NOMATCH \<notin> set (fst (rtmp_calls ?config ?new ?calls))"
    using second by (simp add: first validate_inprocess_def split: prod.splits)
  have h1: "client_state (flow_view ?a1) = RTMP_STATE_SENT_HANDSHAKE1"
      "state_num (server_state (flow_view ?a1)) < state_num RTMP_STATE_SENT_HANDSHAKE1"
    and h2: "server_state (flow_view ?new) = RTMP_STATE_INIT"
      "state_num (client_state (flow_view ?new)) < state_num RTMP_STATE_SENT_HANDSHAKE0"
    and h3: "server_state (flow_view ?a3) = RTMP_STATE_SENT_HANDSHAKE1"
      "state_num (client_state (flow_view ?a3)) < state_num RTMP_STATE_SENT_HANDSHAKE1"
    by (simp_all add: flow_view_def calloc_ServiceRTMPData_def)
  have ne: "[0 :: u8] \<noteq> []" by simp
  let ?s1 = "calloc_ServiceRTMPData\<lparr>client_state := RTMP_STATE_SENT_HANDSHAKE1\<rparr>"
  let ?s3 = "calloc_ServiceRTMPData\<lparr>client_state := RTMP_STATE_SENT_HANDSHAKE0,
           server_state := RTMP_STATE_SENT_HANDSHAKE1\<rparr>"
  note t1 = handshake_ordering_enforced[of "[0]" ?a1 ?config ?s1 "[]"]
  note t2 = handshake_ordering_enforced[of "[0]" ?new ?config calloc_ServiceRTMPData ?calls]
  note t3 = handshake_ordering_enforced[of "[0]" ?a3 ?config ?s3 "[]"]
  have c4: "client_switch ?s1 [0] = Goto_fail ?s1"
    using t1 by (simp add: calloc_ServiceRTMPData_def)
  have c5: "server_switch calloc_ServiceRTMPData [0] = Goto_fail calloc_ServiceRTMPData"
    using t2 by (simp add: calloc_ServiceRTMPData_def)
  have c6: "server_switch ?s3 [0] = Goto_fail ?s3"
    using t3 by (simp add: calloc_ServiceRTMPData_def)
  have c1: "code (rtmp_validate ?config ?a1 [0] APP_ID_FROM_INITIATOR) = SERVICE_NOMATCH"
    using t1 ne h1 by blast
  have c2: "code (rtmp_validate ?config ?new [0] APP_ID_FROM_RESPONDER) = SERVICE_NOMATCH"
    using t2 ne h2 by blast
  have c3: "code (rtmp_validate ?config ?a3 [0] APP_ID_FROM_RESPONDER) = SERVICE_NOMATCH"
    using t3 ne h3 by blast
  have c7: "handshake_order (flow_view (snd (rtmp_calls ?config ?new ?calls)))"
    using t2 run by simp
  from ne h1 c1 h2 c2 h3 c3 c4 c5 c6 run c7 show ?thesis by (intro conjI)
qed

subsection \<open>Bytes behind a message do not change its parse\<close>

lemma list_upto3_cases:
  obtains "xs = []" | a where "xs = [a]" | a b where "xs = [a, b]"
  | a b c t where "xs = a # b # c # t"
proof (cases xs)
  case Nil
  then show thesis by (rule that(1))
next
  case (Cons a xs1)
  show thesis
  proof (cases xs1)
    case Nil
    with Cons show thesis by (simp add: that(2))
  next
    case (Cons b xs2)
    with \<open>xs = a # xs1\<close> show thesis
      by (cases xs2) (simp_all add: that(3) that(4))
  qed
qed

lemma basic_header_append:
  assumes "snd (parse_rtmp_chunk_basic_header xs) = Some (fmt, csid, r)"
  shows "snd (parse_rtmp_chunk_basic_header (xs @ ys)) = Some (fmt, csid, r @ ys)"
  using assms
  by (cases xs rule: list_upto3_cases)
     (auto simp: parse_rtmp_chunk_basic_header_def Let_def split: if_splits)

lemma message_header_append:
  assumes "parse_rtmp_message_header xs = Some (csid, len, ty, r)"
  shows "parse_rtmp_message_header (xs @ ys) = Some (csid, len, ty, r @ ys)"
proof (cases "snd (parse_rtmp_chunk_basic_header xs)")
  case None
  with assms show ?thesis by (simp add: parse_rtmp_message_header_def)
next
  case (Some t)
  obtain fmt i r0 where t: "t = (fmt, i, r0)" by (cases t)
  have bh: "snd (parse_rtmp_chunk_basic_header (xs @ ys)) = Some (fmt, i, r0 @ ys)"
    using Some t by (simp add: basic_header_append)
  from assms Some t have fmt: "fmt = 0 \<or> fmt = 1"
    by (auto simp: parse_rtmp_message_header_def split: if_splits)
  let ?h = "if fmt = 0 then 11 else 7 :: nat"
  from assms Some t fmt have long: "?h \<le> length r0"
    and res: "csid = i" "r = drop ?h r0" "ty = r0 ! 6"
      "len = push_bit 16 (unat (r0 ! 3)) + push_bit 8 (unat (r0 ! 4)) + unat (r0 ! 5)"
    by (auto simp: parse_rtmp_message_header_def split: if_splits)
  from fmt long res show ?thesis
    by (auto simp: parse_rtmp_message_header_def bh nth_append)
qed

lemma unchunk_zero: "unchunk_rtmp_message_body data csid 0 body = Some (body, data)"
  by (simp add: unchunk_rtmp_message_body.simps)

lemma unchunk_append:
  assumes "unchunk_rtmp_message_body xs csid len body = Some (body', r)"
  shows "unchunk_rtmp_message_body (xs @ ys) csid len body = Some (body', r @ ys)"
  using assms
proof (induction xs csid len body rule: unchunk_rtmp_message_body.induct)
  case (1 data chunk_stream_id message_length message_body)
  let ?n = "if message_length > RTMP_CHUNK_SIZE then RTMP_CHUNK_SIZE else message_length"
  show ?case
  proof (cases "message_length > 0")
    case False
    with "1.prems" show ?thesis
      by (simp add: unchunk_zero)
  next
    case pos: True
    from "1.prems" pos have enough: "\<not> length data < ?n"
      by (subst (asm) unchunk_rtmp_message_body.simps) (auto simp: Let_def split: if_splits)
    then have tk: "take ?n (data @ ys) = take ?n data"
      and dr: "drop ?n (data @ ys) = drop ?n data @ ys"
      by simp_all
    show ?thesis
    proof (cases "message_length - ?n > 0")
      case False
      with "1.prems" pos enough tk dr show ?thesis
        by (simp add: unchunk_rtmp_message_body.simps[of _ _ message_length]
            unchunk_zero Let_def)
    next
      case more: True
      from "1.prems" pos enough more obtain fmt i d where
        bh: "snd (parse_rtmp_chunk_basic_header (drop ?n data)) = Some (fmt, i, d)"
        and ok: "fmt = 3" "i = chunk_stream_id"
        and rec: "unchunk_rtmp_message_body d chunk_stream_id (message_length - ?n)
                    (message_body @ take ?n data) = Some (body', r)"
        by (subst (asm) unchunk_rtmp_message_body.simps)
           (auto simp: Let_def split: if_splits option.splits)
      have "unchunk_rtmp_message_body (d @ ys) chunk_stream_id (message_length - ?n)
                    (message_body @ take ?n data) = Some (body', r @ ys)"
        using "1.IH"(1)[OF pos refl enough refl refl refl more bh refl refl _ _ rec] ok
        by simp
      with pos enough more ok basic_header_append[OF bh, of ys] tk dr show ?thesis
        by (subst unchunk_rtmp_message_body.simps) (simp add: Let_def)
    qed
  qed
qed

lemma parse_rtmp_message_append:
  assumes "parse_rtmp_message xs ss = (True, r, ss')"
  shows "parse_rtmp_message (xs @ ys) ss = (True, r @ ys, ss')"
proof -
  from assms obtain csid len ty d where
    h: "parse_rtmp_message_header xs = Some (csid, len, ty, d)"
    by (auto simp: parse_rtmp_message_def split: option.splits)
  from assms h have ty: "ty = RTMP_AMF0_COMMAND_MESSAGE_ID"
    by (auto simp: parse_rtmp_message_def split: if_splits)
  from assms h ty obtain body where
    u: "unchunk_rtmp_message_body d csid len [] = Some (body, r)"
    by (auto simp: parse_rtmp_message_def split: option.splits prod.splits)
  from assms h ty u show ?thesis
    by (simp add: parse_rtmp_message_def message_header_append[OF h]
        unchunk_append[OF u] split: prod.splits)
qed

subsection \<open>The counters that no longer matter\<close>

lemma same_flow_refl: "same_flow a a"
  by (simp add: same_flow_def)

lemma same_flow_sym: "same_flow a b \<Longrightarrow> same_flow b a"
  by (auto simp: same_flow_def split: if_splits)

lemma same_flow_trans: "same_flow a b \<Longrightarrow> same_flow b c \<Longrightarrow> same_flow a c"
  by (auto simp: same_flow_def split: if_splits)

lemma same_exit_refl: "same_exit x x"
  by (cases x) (simp_all add: same_flow_refl)

lemma command_object_property_counters:
  "command_object_property data (ss\<lparr>client_bytes_left := x, server_bytes_left := y\<rparr>)
   = (case command_object_property data ss of
        Property_fail s \<Rightarrow> Property_fail (s\<lparr>client_bytes_left := x, server_bytes_left := y\<rparr>)
      | Property_end s \<Rightarrow> Property_end (s\<lparr>client_bytes_left := x, server_bytes_left := y\<rparr>)
      | Property_next s d \<Rightarrow>
          Property_next (s\<lparr>client_bytes_left := x, server_bytes_left := y\<rparr>) d)"
  by (auto simp: command_object_property_def Let_def split: option.splits)

lemma command_object_loop_counters:
  "command_object_loop data (ss\<lparr>client_bytes_left := x, server_bytes_left := y\<rparr>)
   = (case command_object_loop data ss of
        (ret, s) \<Rightarrow> (ret, s\<lparr>client_bytes_left := x, server_bytes_left := y\<rparr>))"
proof (induction data ss rule: command_object_loop.induct)
  case (1 data0 ss)
  show ?case
  proof (cases "command_object_property data0 ss")
    case (Property_fail s)
    then show ?thesis
      by (simp add: command_object_loop.simps[of data0] command_object_property_counters)
  next
    case (Property_end s)
    then show ?thesis
      by (simp add: command_object_loop.simps[of data0] command_object_property_counters)
  next
    case (Property_next s d)
    show ?thesis
    proof (cases "0 < length d")
      case True
      from "1.IH"[OF Property_next True] Property_next True show ?thesis
        by (simp add: command_object_loop.simps[of data0] command_object_property_counters)
    next
      case False
      with Property_next show ?thesis
        by (simp add: command_object_loop.simps[of data0] command_object_property_counters)
    qed
  qed
qed

lemma parse_connect_command_counters:
  "parse_connect_command body (ss\<lparr>client_bytes_left := x, server_bytes_left := y\<rparr>)
   = (case parse_connect_command body ss of
        (ret, s) \<Rightarrow> (ret, s\<lparr>client_bytes_left := x, server_bytes_left := y\<rparr>))"
  by (simp add: parse_connect_command_def Let_def command_object_loop_counters)

lemma parse_rtmp_message_counters:
  "parse_rtmp_message data (ss\<lparr>client_bytes_left := x, server_bytes_left := y\<rparr>)
   = (case parse_rtmp_message data ss of
        (ret, d, s) \<Rightarrow> (ret, d, s\<lparr>client_bytes_left := x, server_bytes_left := y\<rparr>))"
  by (simp add: parse_rtmp_message_def parse_connect_command_counters
      split: option.splits prod.splits)

lemma same_flow_counters:
  assumes "same_flow a b"
  shows "b = a\<lparr>client_bytes_left := client_bytes_left b, server_bytes_left := server_bytes_left b\<rparr>"
  using assms by (cases a; cases b) (simp add: same_flow_def)

lemma client_switch_same_flow:
  assumes "same_flow a b"
  shows "same_exit (client_switch a d) (client_switch b d)"
proof (cases "client_state a = RTMP_STATE_SENT_HANDSHAKE2")
  case False
  with assms show ?thesis
    by (cases "client_state a")
       (auto simp: same_flow_def sending_def client_switch_defs split: if_splits)
next
  case True
  obtain ret d' s' where p: "parse_rtmp_message d a = (ret, d', s')"
    by (cases "parse_rtmp_message d a")
  from parse_rtmp_message_captures_only[OF p] have cap: "captures_only a s'" .
  let ?s = "s'\<lparr>client_bytes_left := client_bytes_left b, server_bytes_left := server_bytes_left b\<rparr>"
  have "parse_rtmp_message d b = (ret, d', ?s)"
    using parse_rtmp_message_counters[where data = d and ss = a
        and x = "client_bytes_left b" and y = "server_bytes_left b"]
      same_flow_counters[OF assms] p
    by simp
  moreover from assms True have "client_state b = RTMP_STATE_SENT_HANDSHAKE2"
    by (simp add: same_flow_def)
  moreover have "same_flow s' ?s"
    using assms cap True by (auto simp: same_flow_def captures_only_def sending_def)
  moreover have "same_flow (s'\<lparr>client_state := RTMP_STATE_DONE\<rparr>)
      (?s\<lparr>client_state := RTMP_STATE_DONE\<rparr>)"
    using assms cap True by (auto simp: same_flow_def captures_only_def sending_def)
  ultimately show ?thesis
    using True p
    by (simp add: client_switch_def client_case_SENT_HANDSHAKE2_def client_case_DONE_def)
qed

lemma server_switch_same_flow:
  assumes "same_flow a b"
  shows "same_exit (server_switch a d) (server_switch b d)"
  using assms
  by (cases "server_state a")
     (auto simp: same_flow_def sending_def server_switch_defs split: if_splits)

lemma same_exit_cases:
  assumes "same_exit x y"
  obtains (fail) a b where "x = Goto_fail a" "y = Goto_fail b" "same_flow a b"
  | (break) a b d where "x = Break a d" "y = Break b d" "same_flow a b"
  using assms by (cases x; cases y) auto

lemma client_loop_same_flow:
  assumes "same_flow a b"
  shows "rel_sum same_flow same_flow (client_loop a d) (client_loop b d)"
  using assms
proof (induction a d arbitrary: b rule: client_loop.induct)
  case (1 ss data)
  show ?case
  proof (cases "data = []")
    case True
    with "1.prems" show ?thesis by (simp add: client_loop_Nil)
  next
    case False
    from client_switch_same_flow[OF "1.prems", of data] show ?thesis
    proof (cases rule: same_exit_cases)
      case (fail s t)
      with False show ?thesis by (simp add: client_loop_step)
    next
      case (break s t r)
      from False have "0 < length data" by simp
      from "1.IH"[OF this break(1) break(3)] break(1,2) False show ?thesis
        by (simp add: client_loop_step)
    qed
  qed
qed

lemma server_loop_same_flow:
  assumes "same_flow a b"
  shows "rel_sum same_flow same_flow (server_loop a d) (server_loop b d)"
  using assms
proof (induction a d arbitrary: b rule: server_loop.induct)
  case (1 ss data)
  show ?case
  proof (cases "data = []")
    case True
    with "1.prems" show ?thesis by (simp add: server_loop_Nil)
  next
    case False
    from server_switch_same_flow[OF "1.prems", of data] show ?thesis
    proof (cases rule: same_exit_cases)
      case (fail s t)
      with False show ?thesis by (simp add: server_loop_step)
    next
      case (break s t r)
      from False have "0 < length data" by simp
      from "1.IH"[OF this break(1) break(3)] break(1,2) False show ?thesis
        by (simp add: server_loop_step)
    qed
  qed
qed

subsection \<open>A packet and its continuation\<close>

lemma rel_sum_same_flow_refl: "rel_sum same_flow same_flow x x"
  by (cases x) (simp_all add: same_flow_refl)

lemma client_sending1_append:
  assumes st: "client_state s0 = RTMP_STATE_SENDING_HANDSHAKE1" and ne: "xs \<noteq> []"
    and brk: "client_case_SENDING_HANDSHAKE1 s0 xs = Break s' []"
  shows "rel_sum same_flow same_flow (client_loop s0 (xs @ ys)) (client_loop s' ys)"
proof (cases "length xs < client_bytes_left s0")
  case short: True
  with brk have s': "s' = s0\<lparr>client_bytes_left := client_bytes_left s0 - length xs\<rparr>"
    by (simp add: client_case_SENDING_HANDSHAKE1_def)
  show ?thesis
  proof (cases "ys = []")
    case True
    with st ne short s' show ?thesis
      by (simp add: client_budget_short client_loop_Nil same_flow_refl)
  next
    case False
    show ?thesis
    proof (cases "length (xs @ ys) < client_bytes_left s0")
      case True
      with st ne short s' False show ?thesis
        by (simp add: client_budget_short same_flow_refl)
    next
      case long: False
      have l: "client_loop s0 (xs @ ys)
          = client_loop (s0\<lparr>client_state := RTMP_STATE_SENT_HANDSHAKE1\<rparr>)
              (drop (client_bytes_left s0) (xs @ ys))"
        using st ne long by (intro client_budget_complete1) simp_all
      have r: "client_loop s' ys
          = client_loop (s'\<lparr>client_state := RTMP_STATE_SENT_HANDSHAKE1\<rparr>)
              (drop (client_bytes_left s') ys)"
        using st False long short s' by (intro client_budget_complete1) simp_all
      have d: "drop (client_bytes_left s0) (xs @ ys) = drop (client_bytes_left s') ys"
        using short s' by simp
      have "same_flow (s0\<lparr>client_state := RTMP_STATE_SENT_HANDSHAKE1\<rparr>)
          (s'\<lparr>client_state := RTMP_STATE_SENT_HANDSHAKE1\<rparr>)"
        by (simp add: s' same_flow_def sending_def)
      then show ?thesis
        unfolding l r d by (rule client_loop_same_flow)
    qed
  qed
next
  case False
  with brk have s': "s' = s0\<lparr>client_state := RTMP_STATE_SENT_HANDSHAKE1\<rparr>"
    and d: "drop (client_bytes_left s0) xs = []"
    by (simp_all add: client_case_SENDING_HANDSHAKE1_def)
  have "client_loop s0 (xs @ ys) = client_loop s' (drop (client_bytes_left s0) (xs @ ys))"
    unfolding s' using st ne False by (intro client_budget_complete1) simp_all
  also have "drop (client_bytes_left s0) (xs @ ys) = ys"
    using d False by simp
  finally show ?thesis by (simp add: rel_sum_same_flow_refl)
qed

lemma client_sending2_append:
  assumes st: "client_state s0 = RTMP_STATE_SENDING_HANDSHAKE2" and ne: "xs \<noteq> []"
    and brk: "client_case_SENDING_HANDSHAKE2 s0 xs = Break s' []"
  shows "rel_sum same_flow same_flow (client_loop s0 (xs @ ys)) (client_loop s' ys)"
proof (cases "length xs < client_bytes_left s0")
  case short: True
  with brk have s': "s' = s0\<lparr>client_bytes_left := client_bytes_left s0 - length xs\<rparr>"
    by (simp add: client_case_SENDING_HANDSHAKE2_def)
  show ?thesis
  proof (cases "ys = []")
    case True
    with st ne short s' show ?thesis
      by (simp add: client_budget_short client_loop_Nil same_flow_refl)
  next
    case False
    show ?thesis
    proof (cases "length (xs @ ys) < client_bytes_left s0")
      case True
      with st ne short s' False show ?thesis
        by (simp add: client_budget_short same_flow_refl)
    next
      case long: False
      have l: "client_loop s0 (xs @ ys)
          = client_loop (s0\<lparr>client_state := RTMP_STATE_SENT_HANDSHAKE2\<rparr>)
              (drop (client_bytes_left s0) (xs @ ys))"
        using st ne long by (intro client_budget_complete2) simp_all
      have r: "client_loop s' ys
          = client_loop (s'\<lparr>client_state := RTMP_STATE_SENT_HANDSHAKE2\<rparr>)
              (drop (client_bytes_left s') ys)"
        using st False long short s' by (intro client_budget_complete2) simp_all
      have d: "drop (client_bytes_left s0) (xs @ ys) = drop (client_bytes_left s') ys"
        using short s' by simp
      have "same_flow (s0\<lparr>client_state := RTMP_STATE_SENT_HANDSHAKE2\<rparr>)
          (s'\<lparr>client_state := RTMP_STATE_SENT_HANDSHAKE2\<rparr>)"
        by (simp add: s' same_flow_def sending_def)
      then show ?thesis
        unfolding l r d by (rule client_loop_same_flow)
    qed
  qed
next
  case False
  with brk have s': "s' = s0\<lparr>client_state := RTMP_STATE_SENT_HANDSHAKE2\<rparr>"
    and d: "drop (client_bytes_left s0) xs = []"
    by (simp_all add: client_case_SENDING_HANDSHAKE2_def)
  have "client_loop s0 (xs @ ys) = client_loop s' (drop (client_bytes_left s0) (xs @ ys))"
    unfolding s' using st ne False by (intro client_budget_complete2) simp_all
  also have "drop (client_bytes_left s0) (xs @ ys) = ys"
    using d False by simp
  finally show ?thesis by (simp add: rel_sum_same_flow_refl)
qed

lemma client_loop_DONE:
  assumes "client_state ss = RTMP_STATE_DONE"
  shows "client_loop ss data = Inr ss"
  using assms
  by (cases "data = []")
     (simp_all add: client_loop_Nil client_loop_step client_switch_def client_case_DONE_def)

lemma server_loop_DONE:
  assumes "server_state ss = RTMP_STATE_DONE"
  shows "server_loop ss data = Inr ss"
  using assms
  by (cases "data = []")
     (simp_all add: server_loop_Nil server_loop_step server_switch_def server_case_DONE_def)

lemma sending_rest_append:
  assumes "drop n xs \<noteq> []"
  shows "\<not> length (xs @ ys) < n" and "drop n (xs @ ys) = drop n xs @ ys"
  using assms by simp_all

lemma client_switch_append_rest:
  assumes ne: "xs \<noteq> []" and brk: "client_switch ss xs = Break s' r" and r: "r \<noteq> []"
  shows "client_switch ss (xs @ ys) = Break s' (r @ ys)"
proof -
  from ne have hd: "(xs @ ys) ! 0 = xs ! 0" and tl: "drop 1 (xs @ ys) = drop 1 xs @ ys"
    by (cases xs; simp)+
  show ?thesis
  proof (cases "client_state ss")
    case RTMP_STATE_INIT
    with brk hd tl show ?thesis
      by (auto simp: client_switch_def client_case_INIT_def split: if_splits)
  next
    case RTMP_STATE_SENT_HANDSHAKE0
    with brk r have "drop RTMP_HANDSHAKE1_SIZE xs \<noteq> []"
      by (auto simp: client_switch_def client_case_SENT_HANDSHAKE0_def
          client_case_SENDING_HANDSHAKE1_def split: if_splits)
    from sending_rest_append[OF this, of ys] brk r RTMP_STATE_SENT_HANDSHAKE0 show ?thesis
      by (auto simp: client_switch_def client_case_SENT_HANDSHAKE0_def
          client_case_SENDING_HANDSHAKE1_def split: if_splits)
  next
    case RTMP_STATE_SENDING_HANDSHAKE1
    with brk r have "drop (client_bytes_left ss) xs \<noteq> []"
      by (auto simp: client_switch_def client_case_SENDING_HANDSHAKE1_def split: if_splits)
    from sending_rest_append[OF this, of ys] brk r RTMP_STATE_SENDING_HANDSHAKE1 show ?thesis
      by (auto simp: client_switch_def client_case_SENDING_HANDSHAKE1_def split: if_splits)
  next
    case RTMP_STATE_SENT_HANDSHAKE1
    with brk r have "drop RTMP_HANDSHAKE2_SIZE xs \<noteq> []"
      by (auto simp: client_switch_def client_case_SENT_HANDSHAKE1_def
          client_case_SENDING_HANDSHAKE2_def split: if_splits)
    from sending_rest_append[OF this, of ys] brk r RTMP_STATE_SENT_HANDSHAKE1 show ?thesis
      by (auto simp: client_switch_def client_case_SENT_HANDSHAKE1_def
          client_case_SENDING_HANDSHAKE2_def split: if_splits)
  next
    case RTMP_STATE_SENDING_HANDSHAKE2
    with brk r have "drop (client_bytes_left ss) xs \<noteq> []"
      by (auto simp: client_switch_def client_case_SENDING_HANDSHAKE2_def split: if_splits)
    from sending_rest_append[OF this, of ys] brk r RTMP_STATE_SENDING_HANDSHAKE2 show ?thesis
      by (auto simp: client_switch_def client_case_SENDING_HANDSHAKE2_def split: if_splits)
  next
    case RTMP_STATE_SENT_HANDSHAKE2
    with brk r show ?thesis
      by (auto simp: client_switch_def client_case_SENT_HANDSHAKE2_def client_case_DONE_def
          split: if_splits prod.splits)
  next
    case RTMP_STATE_DONE
    with brk r show ?thesis
      by (auto simp: client_switch_def client_case_DONE_def)
  qed
qed

lemma client_switch_append_end:
  assumes ne: "xs \<noteq> []" and brk: "client_switch ss xs = Break s' []"
  shows "rel_sum same_flow same_flow (client_loop ss (xs @ ys)) (client_loop s' ys)"
proof (cases "client_state ss")
  case RTMP_STATE_INIT
  from ne have hd: "(xs @ ys) ! 0 = xs ! 0" and tl: "drop 1 (xs @ ys) = drop 1 xs @ ys"
    by (cases xs; simp)+
  from brk RTMP_STATE_INIT hd tl have "client_switch ss (xs @ ys) = Break s' ys"
    by (auto simp: client_switch_def client_case_INIT_def split: if_splits)
  with ne show ?thesis
    by (cases "ys = []")
       (simp_all add: client_loop_step client_loop_Nil rel_sum_same_flow_refl same_flow_refl)
next
  case RTMP_STATE_SENT_HANDSHAKE0
  let ?s0 = "ss\<lparr>client_state := RTMP_STATE_SENDING_HANDSHAKE1,
      client_bytes_left := RTMP_HANDSHAKE1_SIZE\<rparr>"
  have sw: "client_switch ss d = client_switch ?s0 d" for d
    using RTMP_STATE_SENT_HANDSHAKE0
    by (simp add: client_switch_def client_case_SENT_HANDSHAKE0_def)
  have "client_loop ss (xs @ ys) = client_loop ?s0 (xs @ ys)"
    using ne by (simp add: client_loop_step sw)
  moreover have "client_case_SENDING_HANDSHAKE1 ?s0 xs = Break s' []"
    using brk RTMP_STATE_SENT_HANDSHAKE0
    by (simp add: client_switch_def client_case_SENT_HANDSHAKE0_def)
  ultimately show ?thesis
    using client_sending1_append[of ?s0 xs s' ys] ne by simp
next
  case RTMP_STATE_SENDING_HANDSHAKE1
  with brk have "client_case_SENDING_HANDSHAKE1 ss xs = Break s' []"
    by (simp add: client_switch_def)
  with RTMP_STATE_SENDING_HANDSHAKE1 ne show ?thesis
    by (rule client_sending1_append)
next
  case RTMP_STATE_SENT_HANDSHAKE1
  let ?s0 = "ss\<lparr>client_state := RTMP_STATE_SENDING_HANDSHAKE2,
      client_bytes_left := RTMP_HANDSHAKE2_SIZE\<rparr>"
  from brk RTMP_STATE_SENT_HANDSHAKE1
  have ok: "\<not> state_num (server_state ss) < state_num RTMP_STATE_SENT_HANDSHAKE1"
    by (auto simp: client_switch_def client_case_SENT_HANDSHAKE1_def split: if_splits)
  have sw: "client_switch ss d = client_switch ?s0 d" for d
    using RTMP_STATE_SENT_HANDSHAKE1 ok
    by (simp add: client_switch_def client_case_SENT_HANDSHAKE1_def)
  have "client_loop ss (xs @ ys) = client_loop ?s0 (xs @ ys)"
    using ne by (simp add: client_loop_step sw)
  moreover have "client_case_SENDING_HANDSHAKE2 ?s0 xs = Break s' []"
    using brk RTMP_STATE_SENT_HANDSHAKE1 ok
    by (simp add: client_switch_def client_case_SENT_HANDSHAKE1_def)
  ultimately show ?thesis
    using client_sending2_append[of ?s0 xs s' ys] ne by simp
next
  case RTMP_STATE_SENDING_HANDSHAKE2
  with brk have "client_case_SENDING_HANDSHAKE2 ss xs = Break s' []"
    by (simp add: client_switch_def)
  with RTMP_STATE_SENDING_HANDSHAKE2 ne show ?thesis
    by (rule client_sending2_append)
next
  case RTMP_STATE_SENT_HANDSHAKE2
  from brk RTMP_STATE_SENT_HANDSHAKE2 obtain d' s'' where
    p: "parse_rtmp_message xs ss = (True, d', s'')"
    and s': "s' = s''\<lparr>client_state := RTMP_STATE_DONE\<rparr>"
    by (auto simp: client_switch_def client_case_SENT_HANDSHAKE2_def client_case_DONE_def
        split: prod.splits if_splits)
  have "client_switch ss (xs @ ys) = Break s' []"
    using RTMP_STATE_SENT_HANDSHAKE2 parse_rtmp_message_append[OF p, of ys] s'
    by (simp add: client_switch_def client_case_SENT_HANDSHAKE2_def client_case_DONE_def)
  with ne have "client_loop ss (xs @ ys) = Inr s'"
    by (simp add: client_loop_step client_loop_Nil)
  moreover have "client_loop s' ys = Inr s'"
    by (rule client_loop_DONE) (simp add: s')
  ultimately show ?thesis by (simp add: same_flow_refl)
next
  case RTMP_STATE_DONE
  with brk have "s' = ss"
    by (simp add: client_switch_def client_case_DONE_def)
  with RTMP_STATE_DONE show ?thesis
    by (simp add: client_loop_DONE same_flow_refl)
qed

lemma client_loop_append:
  assumes "client_loop ss xs = Inr s1"
  shows "rel_sum same_flow same_flow (client_loop ss (xs @ ys)) (client_loop s1 ys)"
  using assms
proof (induction ss xs rule: client_loop.induct)
  case (1 ss data)
  show ?case
  proof (cases "data = []")
    case True
    with "1.prems" show ?thesis
      by (simp add: client_loop_Nil rel_sum_same_flow_refl)
  next
    case False
    with "1.prems" obtain s' r where brk: "client_switch ss data = Break s' r"
      and rest: "client_loop s' r = Inr s1"
      by (cases "client_switch ss data") (simp_all add: client_loop_step)
    show ?thesis
    proof (cases "r = []")
      case True
      with rest have "s1 = s'" by (simp add: client_loop_Nil)
      with client_switch_append_end[OF False, of ss s' ys] brk True show ?thesis by simp
    next
      case r: False
      from False have "0 < length data" by simp
      from "1.IH"[OF this brk rest]
      have "rel_sum same_flow same_flow (client_loop s' (r @ ys)) (client_loop s1 ys)" .
      moreover have "client_loop ss (data @ ys) = client_loop s' (r @ ys)"
        using client_switch_append_rest[OF False brk r, of ys] False
        by (simp add: client_loop_step)
      ultimately show ?thesis by simp
    qed
  qed
qed

lemma server_sending1_append:
  assumes st: "server_state s0 = RTMP_STATE_SENDING_HANDSHAKE1" and ne: "xs \<noteq> []"
    and brk: "server_case_SENDING_HANDSHAKE1 s0 xs = Break s' []"
  shows "rel_sum same_flow same_flow (server_loop s0 (xs @ ys)) (server_loop s' ys)"
proof (cases "length xs < server_bytes_left s0")
  case short: True
  with brk have s': "s' = s0\<lparr>server_bytes_left := server_bytes_left s0 - length xs\<rparr>"
    by (simp add: server_case_SENDING_HANDSHAKE1_def)
  show ?thesis
  proof (cases "ys = []")
    case True
    with st ne short s' show ?thesis
      by (simp add: server_budget_short server_loop_Nil same_flow_refl)
  next
    case False
    show ?thesis
    proof (cases "length (xs @ ys) < server_bytes_left s0")
      case True
      with st ne short s' False show ?thesis
        by (simp add: server_budget_short same_flow_refl)
    next
      case long: False
      have l: "server_loop s0 (xs @ ys)
          = server_loop (s0\<lparr>server_state := RTMP_STATE_SENT_HANDSHAKE1\<rparr>)
              (drop (server_bytes_left s0) (xs @ ys))"
        using st ne long by (intro server_budget_complete1) simp_all
      have r: "server_loop s' ys
          = server_loop (s'\<lparr>server_state := RTMP_STATE_SENT_HANDSHAKE1\<rparr>)
              (drop (server_bytes_left s') ys)"
        using st False long short s' by (intro server_budget_complete1) simp_all
      have d: "drop (server_bytes_left s0) (xs @ ys) = drop (server_bytes_left s') ys"
        using short s' by simp
      have "same_flow (s0\<lparr>server_state := RTMP_STATE_SENT_HANDSHAKE1\<rparr>)
          (s'\<lparr>server_state := RTMP_STATE_SENT_HANDSHAKE1\<rparr>)"
        by (simp add: s' same_flow_def sending_def)
      then show ?thesis
        unfolding l r d by (rule server_loop_same_flow)
    qed
  qed
next
  case False
  with brk have s': "s' = s0\<lparr>server_state := RTMP_STATE_SENT_HANDSHAKE1\<rparr>"
    and d: "drop (server_bytes_left s0) xs = []"
    by (simp_all add: server_case_SENDING_HANDSHAKE1_def)
  have "server_loop s0 (xs @ ys) = server_loop s' (drop (server_bytes_left s0) (xs @ ys))"
    unfolding s' using st ne False by (intro server_budget_complete1) simp_all
  also have "drop (server_bytes_left s0) (xs @ ys) = ys"
    using d False by simp
  finally show ?thesis by (simp add: rel_sum_same_flow_refl)
qed

lemma server_sending2_append:
  assumes st: "server_state s0 = RTMP_STATE_SENDING_HANDSHAKE2" and ne: "xs \<noteq> []"
    and brk: "server_case_SENDING_HANDSHAKE2 s0 xs = Break s' r"
  shows "r = [] \<and> rel_sum same_flow same_flow (server_loop s0 (xs @ ys)) (server_loop s' ys)"
proof (cases "length xs < server_bytes_left s0")
  case short: True
  with brk have s': "s' = s0\<lparr>server_bytes_left := server_bytes_left s0 - length xs\<rparr>"
    and r: "r = []"
    by (simp_all add: server_case_SENDING_HANDSHAKE2_def)
  have "rel_sum same_flow same_flow (server_loop s0 (xs @ ys)) (server_loop s' ys)"
  proof (cases "ys = []")
    case True
    with st ne short s' show ?thesis
      by (simp add: server_budget_short server_loop_Nil same_flow_refl)
  next
    case False
    show ?thesis
    proof (cases "length (xs @ ys) < server_bytes_left s0")
      case True
      with st ne short s' False show ?thesis
        by (simp add: server_budget_short same_flow_refl)
    next
      case long: False
      have l: "server_loop s0 (xs @ ys) = Inr (s0\<lparr>server_state := RTMP_STATE_DONE\<rparr>)"
        using st ne long by (intro server_budget_complete2(2)) simp_all
      have r: "server_loop s' ys = Inr (s'\<lparr>server_state := RTMP_STATE_DONE\<rparr>)"
        using st False long short s' by (intro server_budget_complete2(2)) simp_all
      show ?thesis
        unfolding l r by (simp add: s' same_flow_def sending_def)
    qed
  qed
  with r show ?thesis by simp
next
  case False
  with brk have s': "s' = s0\<lparr>server_state := RTMP_STATE_DONE\<rparr>" and r: "r = []"
    by (simp_all add: server_case_SENDING_HANDSHAKE2_def server_case_SENT_HANDSHAKE2_def
        server_case_DONE_def)
  have "server_loop s0 (xs @ ys) = Inr s'"
    unfolding s' using st ne False by (intro server_budget_complete2(2)) simp_all
  moreover have "server_loop s' ys = Inr s'"
    by (rule server_loop_DONE) (simp add: s')
  ultimately show ?thesis using r by (simp add: same_flow_refl)
qed

lemma server_switch_append_rest:
  assumes ne: "xs \<noteq> []" and brk: "server_switch ss xs = Break s' r" and r: "r \<noteq> []"
  shows "server_switch ss (xs @ ys) = Break s' (r @ ys)"
proof -
  from ne have hd: "(xs @ ys) ! 0 = xs ! 0" and tl: "drop 1 (xs @ ys) = drop 1 xs @ ys"
    by (cases xs; simp)+
  show ?thesis
  proof (cases "server_state ss")
    case RTMP_STATE_INIT
    with brk hd tl show ?thesis
      by (auto simp: server_switch_def server_case_INIT_def split: if_splits)
  next
    case RTMP_STATE_SENT_HANDSHAKE0
    with brk r have "drop RTMP_HANDSHAKE1_SIZE xs \<noteq> []"
      by (auto simp: server_switch_def server_case_SENT_HANDSHAKE0_def
          server_case_SENDING_HANDSHAKE1_def split: if_splits)
    from sending_rest_append[OF this, of ys] brk r RTMP_STATE_SENT_HANDSHAKE0 show ?thesis
      by (auto simp: server_switch_def server_case_SENT_HANDSHAKE0_def
          server_case_SENDING_HANDSHAKE1_def split: if_splits)
  next
    case RTMP_STATE_SENDING_HANDSHAKE1
    with brk r have "drop (server_bytes_left ss) xs \<noteq> []"
      by (auto simp: server_switch_def server_case_SENDING_HANDSHAKE1_def split: if_splits)
    from sending_rest_append[OF this, of ys] brk r RTMP_STATE_SENDING_HANDSHAKE1 show ?thesis
      by (auto simp: server_switch_def server_case_SENDING_HANDSHAKE1_def split: if_splits)
  next
    case RTMP_STATE_SENT_HANDSHAKE1
    with brk r show ?thesis
      by (auto simp: server_switch_def server_case_SENT_HANDSHAKE1_def
          server_case_SENDING_HANDSHAKE2_def server_case_SENT_HANDSHAKE2_def
          server_case_DONE_def split: if_splits)
  next
    case RTMP_STATE_SENDING_HANDSHAKE2
    with brk r show ?thesis
      by (auto simp: server_switch_def server_case_SENDING_HANDSHAKE2_def
          server_case_SENT_HANDSHAKE2_def server_case_DONE_def split: if_splits)
  next
    case RTMP_STATE_SENT_HANDSHAKE2
    with brk r show ?thesis
      by (auto simp: server_switch_def server_case_SENT_HANDSHAKE2_def server_case_DONE_def)
  next
    case RTMP_STATE_DONE
    with brk r show ?thesis
      by (auto simp: server_switch_def server_case_DONE_def)
  qed
qed

lemma server_switch_append_end:
  assumes ne: "xs \<noteq> []" and brk: "server_switch ss xs = Break s' []"
  shows "rel_sum same_flow same_flow (server_loop ss (xs @ ys)) (server_loop s' ys)"
proof (cases "server_state ss")
  case RTMP_STATE_INIT
  from ne have hd: "(xs @ ys) ! 0 = xs ! 0" and tl: "drop 1 (xs @ ys) = drop 1 xs @ ys"
    by (cases xs; simp)+
  from brk RTMP_STATE_INIT hd tl have "server_switch ss (xs @ ys) = Break s' ys"
    by (auto simp: server_switch_def server_case_INIT_def split: if_splits)
  with ne show ?thesis
    by (cases "ys = []")
       (simp_all add: server_loop_step server_loop_Nil rel_sum_same_flow_refl same_flow_refl)
next
  case RTMP_STATE_SENT_HANDSHAKE0
  let ?s0 = "ss\<lparr>server_state := RTMP_STATE_SENDING_HANDSHAKE1,
      server_bytes_left := RTMP_HANDSHAKE1_SIZE\<rparr>"
  have sw: "server_switch ss d = server_switch ?s0 d" for d
    using RTMP_STATE_SENT_HANDSHAKE0
    by (simp add: server_switch_def server_case_SENT_HANDSHAKE0_def)
  have "server_loop ss (xs @ ys) = server_loop ?s0 (xs @ ys)"
    using ne by (simp add: server_loop_step sw)
  moreover have "server_case_SENDING_HANDSHAKE1 ?s0 xs = Break s' []"
    using brk RTMP_STATE_SENT_HANDSHAKE0
    by (simp add: server_switch_def server_case_SENT_HANDSHAKE0_def)
  ultimately show ?thesis
    using server_sending1_append[of ?s0 xs s' ys] ne by simp
next
  case RTMP_STATE_SENDING_HANDSHAKE1
  with brk have "server_case_SENDING_HANDSHAKE1 ss xs = Break s' []"
    by (simp add: server_switch_def)
  with RTMP_STATE_SENDING_HANDSHAKE1 ne show ?thesis
    by (rule server_sending1_append)
next
  case RTMP_STATE_SENT_HANDSHAKE1
  let ?s0 = "ss\<lparr>server_state := RTMP_STATE_SENDING_HANDSHAKE2,
      server_bytes_left := RTMP_HANDSHAKE2_SIZE\<rparr>"
  from brk RTMP_STATE_SENT_HANDSHAKE1
  have ok: "\<not> state_num (client_state ss) < state_num RTMP_STATE_SENT_HANDSHAKE1"
    by (auto simp: server_switch_def server_case_SENT_HANDSHAKE1_def split: if_splits)
  have sw: "server_switch ss d = server_switch ?s0 d" for d
    using RTMP_STATE_SENT_HANDSHAKE1 ok
    by (simp add: server_switch_def server_case_SENT_HANDSHAKE1_def)
  have "server_loop ss (xs @ ys) = server_loop ?s0 (xs @ ys)"
    using ne by (simp add: server_loop_step sw)
  moreover have "server_case_SENDING_HANDSHAKE2 ?s0 xs = Break s' []"
    using brk RTMP_STATE_SENT_HANDSHAKE1 ok
    by (simp add: server_switch_def server_case_SENT_HANDSHAKE1_def)
  ultimately show ?thesis
    using server_sending2_append[of ?s0 xs s' "[]" ys] ne by simp
next
  case RTMP_STATE_SENDING_HANDSHAKE2
  with brk have "server_case_SENDING_HANDSHAKE2 ss xs = Break s' []"
    by (simp add: server_switch_def)
  from server_sending2_append[OF RTMP_STATE_SENDING_HANDSHAKE2 ne this] show ?thesis
    by simp
next
  case RTMP_STATE_SENT_HANDSHAKE2
  with brk have s': "s' = ss\<lparr>server_state := RTMP_STATE_DONE\<rparr>"
    by (simp add: server_switch_def server_case_SENT_HANDSHAKE2_def server_case_DONE_def)
  have "server_switch ss (xs @ ys) = Break s' []"
    using RTMP_STATE_SENT_HANDSHAKE2 s'
    by (simp add: server_switch_def server_case_SENT_HANDSHAKE2_def server_case_DONE_def)
  with ne have "server_loop ss (xs @ ys) = Inr s'"
    by (simp add: server_loop_step server_loop_Nil)
  moreover have "server_loop s' ys = Inr s'"
    by (rule server_loop_DONE) (simp add: s')
  ultimately show ?thesis by (simp add: same_flow_refl)
next
  case RTMP_STATE_DONE
  with brk have "s' = ss"
    by (simp add: server_switch_def server_case_DONE_def)
  with RTMP_STATE_DONE show ?thesis
    by (simp add: server_loop_DONE same_flow_refl)
qed

lemma server_switch_append_fail:
  assumes ne: "xs \<noteq> []" and fl: "server_switch ss xs = Goto_fail s1"
  shows "server_switch ss (xs @ ys) = Goto_fail s1"
proof -
  from ne have hd: "(xs @ ys) ! 0 = xs ! 0"
    by (cases xs) simp_all
  from fl hd show ?thesis
    by (cases "server_state ss")
       (auto simp: server_switch_defs split: if_splits)
qed

lemma server_loop_append:
  assumes "server_loop ss xs = Inr s1"
  shows "rel_sum same_flow same_flow (server_loop ss (xs @ ys)) (server_loop s1 ys)"
  using assms
proof (induction ss xs rule: server_loop.induct)
  case (1 ss data)
  show ?case
  proof (cases "data = []")
    case True
    with "1.prems" show ?thesis
      by (simp add: server_loop_Nil rel_sum_same_flow_refl)
  next
    case False
    with "1.prems" obtain s' r where brk: "server_switch ss data = Break s' r"
      and rest: "server_loop s' r = Inr s1"
      by (cases "server_switch ss data") (simp_all add: server_loop_step)
    show ?thesis
    proof (cases "r = []")
      case True
      with rest have "s1 = s'" by (simp add: server_loop_Nil)
      with server_switch_append_end[OF False, of ss s' ys] brk True show ?thesis by simp
    next
      case r: False
      from False have "0 < length data" by simp
      from "1.IH"[OF this brk rest]
      have "rel_sum same_flow same_flow (server_loop s' (r @ ys)) (server_loop s1 ys)" .
      moreover have "server_loop ss (data @ ys) = server_loop s' (r @ ys)"
        using server_switch_append_rest[OF False brk r, of ys] False
        by (simp add: server_loop_step)
      ultimately show ?thesis by simp
    qed
  qed
qed

lemma server_loop_append_fail:
  assumes "server_loop ss xs = Inl s1"
  shows "server_loop ss (xs @ ys) = Inl s1"
  using assms
proof (induction ss xs rule: server_loop.induct)
  case (1 ss data)
  from "1.prems" have ne: "data \<noteq> []"
    by (auto simp: server_loop_Nil)
  show ?case
  proof (cases "server_switch ss data")
    case (Goto_fail s)
    with "1.prems" ne have "s = s1" by (simp add: server_loop_step)
    with server_switch_append_fail[OF ne Goto_fail, of ys] ne show ?thesis
      by (simp add: server_loop_step)
  next
    case (Break s' r)
    with "1.prems" ne have rest: "server_loop s' r = Inl s1"
      by (simp add: server_loop_step)
    then have r: "r \<noteq> []" by (auto simp: server_loop_Nil)
    from ne have "0 < length data" by simp
    from "1.IH"[OF this Break rest] have "server_loop s' (r @ ys) = Inl s1" .
    with server_switch_append_rest[OF ne Break r, of ys] ne show ?thesis
      by (simp add: server_loop_step)
  qed
qed

subsection \<open>Chunked delivery against a single call\<close>

lemma consume_packet_Nil: "consume_packet ss [] dir = Inr ss"
  by (simp add: consume_packet_def client_loop_Nil server_loop_Nil)

lemma consume_packet_append:
  assumes "consume_packet ss xs dir = Inr s1"
  shows "rel_sum same_flow same_flow (consume_packet ss (xs @ ys) dir) (consume_packet s1 ys dir)"
  using assms
  by (auto simp: consume_packet_def same_flow_refl split: if_splits
      intro: client_loop_append server_loop_append)

lemma consume_packet_append_fail:
  assumes "consume_packet ss xs APP_ID_FROM_RESPONDER = Inl s1"
  shows "consume_packet ss (xs @ ys) APP_ID_FROM_RESPONDER = Inl s1"
  using assms by (simp add: consume_packet_def server_loop_append_fail)

lemma consume_packet_DONE:
  assumes "client_state ss = RTMP_STATE_DONE" and "server_state ss = RTMP_STATE_DONE"
  shows "consume_packet ss data dir = Inr ss"
  using assms by (simp add: consume_packet_def client_loop_DONE server_loop_DONE)

lemma classify_same_flow:
  assumes "rel_sum same_flow same_flow x y"
  shows "classify x = classify y"
  using assms by (cases x; cases y) (auto simp: classify_def same_flow_def)

lemma code_classify:
  assumes "session_packet_count asd < rtmp_max_packets config"
  shows "code (rtmp_validate config asd data dir)
         = (if data = [] then SERVICE_INPROCESS
            else classify (consume_packet (flow_view asd) data dir))"
proof (cases "data = []")
  case True
  then show ?thesis by (simp add: rtmp_validate_def)
next
  case False
  then show ?thesis
  proof (cases rule: rtmp_validate_cases[where config = config and asd = asd and dir = dir])
    case (fail_loop s)
    with False show ?thesis by (simp add: classify_def)
  next
    case (success s)
    with False show ?thesis by (simp add: classify_def)
  next
    case (ceiling s)
    with assms show ?thesis by simp
  next
    case (inprocess s)
    with False show ?thesis by (simp add: classify_def)
  qed
qed

lemma rtmp_validate_inprocess_flow:
  assumes "data \<noteq> []" and "code (rtmp_validate config asd data dir) = SERVICE_INPROCESS"
  shows "consume_packet (flow_view asd) data dir
         = Inr (flow_view (session (rtmp_validate config asd data dir)))"
  using assms(1)
proof (cases rule: rtmp_validate_cases[where config = config and asd = asd and dir = dir])
  case (fail_loop s)
  with assms(2) show ?thesis by simp
next
  case (success s)
  with assms(2) show ?thesis by simp
next
  case (ceiling s)
  with assms(2) show ?thesis by simp
next
  case (inprocess s)
  then show ?thesis by simp
qed

lemma client_switch_append_fail:
  assumes ne: "xs \<noteq> []" and fl: "client_switch ss xs = Goto_fail s1"
    and st: "client_state s1 \<noteq> RTMP_STATE_SENT_HANDSHAKE2"
  shows "client_switch ss (xs @ ys) = Goto_fail s1"
proof (cases "client_state ss")
  case RTMP_STATE_INIT
  from ne have "(xs @ ys) ! 0 = xs ! 0"
    by (cases xs) simp_all
  with fl RTMP_STATE_INIT show ?thesis
    by (auto simp: client_switch_def client_case_INIT_def split: if_splits)
next
  case RTMP_STATE_SENT_HANDSHAKE0
  with fl show ?thesis
    by (auto simp: client_switch_def client_case_SENT_HANDSHAKE0_def
        client_case_SENDING_HANDSHAKE1_def split: if_splits)
next
  case RTMP_STATE_SENDING_HANDSHAKE1
  with fl show ?thesis
    by (auto simp: client_switch_def client_case_SENDING_HANDSHAKE1_def split: if_splits)
next
  case RTMP_STATE_SENT_HANDSHAKE1
  with fl show ?thesis
    by (auto simp: client_switch_def client_case_SENT_HANDSHAKE1_def
        client_case_SENDING_HANDSHAKE2_def split: if_splits)
next
  case RTMP_STATE_SENDING_HANDSHAKE2
  with fl show ?thesis
    by (auto simp: client_switch_def client_case_SENDING_HANDSHAKE2_def split: if_splits)
next
  case RTMP_STATE_SENT_HANDSHAKE2
  with fl obtain d' where "parse_rtmp_message xs ss = (False, d', s1)"
    by (auto simp: client_switch_def client_case_SENT_HANDSHAKE2_def client_case_DONE_def
        split: prod.splits if_splits)
  then have "captures_only ss s1"
    by (rule parse_rtmp_message_captures_only)
  with RTMP_STATE_SENT_HANDSHAKE2 st show ?thesis
    by (simp add: captures_only_def)
next
  case RTMP_STATE_DONE
  with fl show ?thesis
    by (simp add: client_switch_def client_case_DONE_def)
qed

lemma client_loop_append_fail:
  assumes "client_loop ss xs = Inl s1" and "client_state s1 \<noteq> RTMP_STATE_SENT_HANDSHAKE2"
  shows "client_loop ss (xs @ ys) = Inl s1"
  using assms
proof (induction ss xs rule: client_loop.induct)
  case (1 ss data)
  from "1.prems"(1) have ne: "data \<noteq> []"
    by (auto simp: client_loop_Nil)
  show ?case
  proof (cases "client_switch ss data")
    case (Goto_fail s)
    with "1.prems"(1) ne have s: "s = s1" by (simp add: client_loop_step)
    from client_switch_append_fail[OF ne Goto_fail[unfolded s] "1.prems"(2), of ys] ne
    show ?thesis
      by (simp add: client_loop_step)
  next
    case (Break s' r)
    with "1.prems"(1) ne have rest: "client_loop s' r = Inl s1"
      by (simp add: client_loop_step)
    then have r: "r \<noteq> []" by (auto simp: client_loop_Nil)
    from ne have "0 < length data" by simp
    from "1.IH"[OF this Break rest "1.prems"(2)] have "client_loop s' (r @ ys) = Inl s1" .
    with client_switch_append_rest[OF ne Break r, of ys] ne show ?thesis
      by (simp add: client_loop_step)
  qed
qed

lemma consume_packet_append_fail_client:
  assumes "consume_packet ss xs dir = Inl s1"
    and "dir = APP_ID_FROM_INITIATOR \<longrightarrow> client_state s1 \<noteq> RTMP_STATE_SENT_HANDSHAKE2"
  shows "consume_packet ss (xs @ ys) dir = Inl s1"
  using assms
  by (cases dir) (simp_all add: consume_packet_def server_loop_append_fail client_loop_append_fail)

lemma rtmp_validate_fail_flow:
  assumes "data \<noteq> []" and "consume_packet (flow_view asd) data dir = Inl s1"
  shows "client_state (flow_view (session (rtmp_validate config asd data dir))) = client_state s1"
  using assms(1)
proof (cases rule: rtmp_validate_cases[where config = config and asd = asd and dir = dir])
  case (fail_loop s)
  with assms(2) show ?thesis by (simp add: validate_fail_def flow_view_def)
next
  case (success s)
  with assms(2) show ?thesis by simp
next
  case (ceiling s)
  with assms(2) show ?thesis by simp
next
  case (inprocess s)
  with assms(2) show ?thesis by simp
qed

lemma deliver_single:
  assumes "\<forall>(n, chunk) \<in> set chunks. n < rtmp_max_packets config"
    and "n0 < rtmp_max_packets config"
    and "\<not> (dir = APP_ID_FROM_INITIATOR
            \<and> fst (deliver config asd dir chunks) = SERVICE_NOMATCH
            \<and> client_state (flow_view (snd (deliver config asd dir chunks)))
                = RTMP_STATE_SENT_HANDSHAKE2
            \<and> concat (map snd (undelivered config asd dir chunks)) \<noteq> [])"
  shows "fst (deliver config asd dir chunks)
         = code (rtmp_validate config (asd\<lparr>session_packet_count := n0\<rparr>)
             (concat (map snd chunks)) dir)"
  using assms
proof (induction chunks arbitrary: asd)
  case Nil
  then show ?case by (simp add: rtmp_validate_def)
next
  case (Cons c chunks)
  obtain n chunk where c: "c = (n, chunk)" by (cases c)
  let ?rest = "concat (map snd chunks)"
  let ?asdn = "asd\<lparr>session_packet_count := n\<rparr>"
  let ?r = "rtmp_validate config ?asdn chunk dir"
  from Cons.prems(1) c have n: "n < rtmp_max_packets config"
    and ns: "\<forall>(n, chunk) \<in> set chunks. n < rtmp_max_packets config"
    by simp_all
  have single: "code (rtmp_validate config (asd\<lparr>session_packet_count := n0\<rparr>)
        (chunk @ ?rest) dir)
      = (if chunk @ ?rest = [] then SERVICE_INPROCESS
         else classify (consume_packet (flow_view asd) (chunk @ ?rest) dir))"
    using code_classify[of "asd\<lparr>session_packet_count := n0\<rparr>" config "chunk @ ?rest" dir]
      Cons.prems(2)
    by simp
  have first: "code ?r
      = (if chunk = [] then SERVICE_INPROCESS
         else classify (consume_packet (flow_view asd) chunk dir))"
    using code_classify[of ?asdn config chunk dir] n by simp
  have del: "deliver config asd dir (c # chunks)
      = (if code ?r = SERVICE_INPROCESS then deliver config (session ?r) dir chunks
         else (code ?r, session ?r))"
    by (simp add: c)
  have und: "undelivered config asd dir (c # chunks)
      = (if code ?r = SERVICE_INPROCESS then undelivered config (session ?r) dir chunks
         else chunks)"
    by (simp add: c)
  show ?case
  proof (cases "chunk = []")
    case True
    then have r: "?r = validate_inprocess ?asdn"
      by (simp add: rtmp_validate_def)
    from r have sess: "session ?r = ?asdn" by (simp add: validate_inprocess_def)
    from first True have inproc: "code ?r = SERVICE_INPROCESS" by simp
    have "fst (deliver config ?asdn dir chunks)
        = code (rtmp_validate config (?asdn\<lparr>session_packet_count := n0\<rparr>) ?rest dir)"
      using Cons.prems(3) unfolding del und using inproc sess
      by (intro Cons.IH[OF ns Cons.prems(2)]) simp
    with del first True sess show ?thesis by (simp add: c)
  next
    case ne: False
    show ?thesis
    proof (cases "consume_packet (flow_view asd) chunk dir")
      case (Inl s1)
      with first ne have nomatch: "code ?r = SERVICE_NOMATCH" by (simp add: classify_def)
      have fv: "flow_view ?asdn = flow_view asd" by (simp add: flow_view_def)
      from rtmp_validate_fail_flow[of chunk ?asdn dir s1 config] ne Inl fv
      have st: "client_state (flow_view (session ?r)) = client_state s1" by simp
      have "consume_packet (flow_view asd) (chunk @ ?rest) dir = Inl s1"
      proof (cases "?rest = []")
        case True
        with Inl show ?thesis by (simp del: concat_eq_Nil_conv)
      next
        case False
        with Cons.prems(3) have "dir = APP_ID_FROM_INITIATOR \<longrightarrow>
            client_state s1 \<noteq> RTMP_STATE_SENT_HANDSHAKE2"
          unfolding del und using nomatch st by (simp del: concat_eq_Nil_conv)
        with Inl show ?thesis by (rule consume_packet_append_fail_client)
      qed
      with single ne del nomatch show ?thesis by (simp add: c classify_def)
    next
      case (Inr s1)
      from consume_packet_append[OF Inr, of ?rest]
      have eq: "classify (consume_packet (flow_view asd) (chunk @ ?rest) dir)
          = classify (consume_packet s1 ?rest dir)"
        by (rule classify_same_flow)
      show ?thesis
      proof (cases "client_state s1 = RTMP_STATE_DONE \<and> server_state s1 = RTMP_STATE_DONE")
        case True
        with first ne Inr have "code ?r = SERVICE_SUCCESS" by (simp add: classify_def)
        moreover from True have "classify (consume_packet s1 ?rest dir) = SERVICE_SUCCESS"
          by (simp add: consume_packet_DONE classify_def)
        ultimately show ?thesis using single ne del eq by (simp add: c)
      next
        case False
        with first ne Inr have inproc: "code ?r = SERVICE_INPROCESS"
          by (simp add: classify_def)
        from rtmp_validate_inprocess_flow[OF ne inproc] Inr
        have fv: "flow_view (session ?r) = s1" by simp
        have ih: "fst (deliver config (session ?r) dir chunks)
            = code (rtmp_validate config ((session ?r)\<lparr>session_packet_count := n0\<rparr>)
                ?rest dir)"
          using Cons.prems(3) unfolding del und using inproc
          by (intro Cons.IH[OF ns Cons.prems(2)]) simp
        have "code (rtmp_validate config ((session ?r)\<lparr>session_packet_count := n0\<rparr>)
                ?rest dir)
            = classify (consume_packet s1 ?rest dir)"
        proof (cases "?rest = []")
          case True
          have "classify (consume_packet s1 [] dir) = SERVICE_INPROCESS"
            using False by (simp add: consume_packet_Nil classify_def)
          then show ?thesis
            unfolding True by (simp add: rtmp_validate_def)
        next
          case nonempty: False
          have "code (rtmp_validate config ((session ?r)\<lparr>session_packet_count := n0\<rparr>)
                ?rest dir)
              = (if ?rest = [] then SERVICE_INPROCESS
                 else classify (consume_packet
                   (flow_view ((session ?r)\<lparr>session_packet_count := n0\<rparr>)) ?rest dir))"
            using Cons.prems(2) by (intro code_classify) simp
          with nonempty fv show ?thesis by (simp del: concat_eq_Nil_conv)
        qed
        with ih del inproc single ne eq show ?thesis by (simp add: c)
      qed
    qed
  qed
qed

text \<open>
  C1, as the code has it.  The bytes of one direction are delivered in chunks,
  the calls going on while they return in-process, or in one call (so they
  fit a 16-bit size); the packet count stays below the ceiling in every call of
  either run.  The two runs classify the flow alike, with one exception: the
  chunks come from the client, the chunked run ends in a failure with the
  client in \<open>RTMP_STATE_SENT_HANDSHAKE2\<close>, and bytes are left undelivered behind
  the failing call.  (\<open>parse_rtmp_message\<close> is the only jump to \<open>fail\<close> that
  the client's loop makes in that state, and it never changes the state.  The
  message is parsed from the bytes of the call that finds the client in that
  state and from nothing else, so a chunked run can fail there on a message
  whose remaining bytes a single call would have had at hand.)
\<close>

theorem chunked_delivery_classification:
  assumes "\<forall>(n, chunk) \<in> set chunks. n < rtmp_max_packets config"
    and "n0 < rtmp_max_packets config"
    and "length (concat (map snd chunks)) < 65536"
    and "\<not> (dir = APP_ID_FROM_INITIATOR
            \<and> fst (deliver config asd dir chunks) = SERVICE_NOMATCH
            \<and> client_state (flow_view (snd (deliver config asd dir chunks)))
                = RTMP_STATE_SENT_HANDSHAKE2
            \<and> concat (map snd (undelivered config asd dir chunks)) \<noteq> [])"
  shows "fst (deliver config asd dir chunks)
         = code (rtmp_validate config (asd\<lparr>session_packet_count := n0\<rparr>)
             (concat (map snd chunks)) dir)"
  using assms(1,2,4) by (rule deliver_single)

theorem chunked_delivery_classification_witness:
  "list_all (\<lambda>(n, chunk). n < rtmp_max_packets \<lparr>rtmp_max_packets = 5, referred_appId_disabled = False\<rparr>)
     [(0, [3 :: u8]), (1, replicate 1536 0), (2, [0]), (3, [0])]
   \<and> 4 < rtmp_max_packets \<lparr>rtmp_max_packets = 5, referred_appId_disabled = False\<rparr>
   \<and> length (concat (map snd
        [(0 :: nat, [3 :: u8]), (1, replicate 1536 0), (2, [0]), (3, [0])])) < 65536
   \<and> fst (deliver \<lparr>rtmp_max_packets = 5, referred_appId_disabled = False\<rparr>
        \<lparr>flow_data = None, hsession = None, scan_http_host_url_flag = False,
         session_packet_count = 0\<rparr>
        APP_ID_FROM_INITIATOR [(0, [3]), (1, replicate 1536 0), (2, [0]), (3, [0])])
     = SERVICE_NOMATCH
   \<and> client_state (flow_view (snd (deliver
        \<lparr>rtmp_max_packets = 5, referred_appId_disabled = False\<rparr>
        \<lparr>flow_data = None, hsession = None, scan_http_host_url_flag = False,
         session_packet_count = 0\<rparr>
        APP_ID_FROM_INITIATOR [(0, [3]), (1, replicate 1536 0), (2, [0]), (3, [0])])))
     = RTMP_STATE_SENT_HANDSHAKE1
   \<and> undelivered \<lparr>rtmp_max_packets = 5, referred_appId_disabled = False\<rparr>
        \<lparr>flow_data = None, hsession = None, scan_http_host_url_flag = False,
         session_packet_count = 0\<rparr>
        APP_ID_FROM_INITIATOR [(0, [3]), (1, replicate 1536 0), (2, [0]), (3, [0])]
     = [(3, [0])]
   \<and> code (rtmp_validate \<lparr>rtmp_max_packets = 5, referred_appId_disabled = False\<rparr>
        \<lparr>flow_data = None, hsession = None, scan_http_host_url_flag = False,
         session_packet_count = 4\<rparr>
        (3 # replicate 1536 0 @ [0, 0]) APP_ID_FROM_INITIATOR)
     = SERVICE_NOMATCH
   \<and> fst (deliver \<lparr>rtmp_max_packets = 5, referred_appId_disabled = False\<rparr>
        \<lparr>flow_data = Some \<lparr>client_state = RTMP_STATE_SENDING_HANDSHAKE2,
            server_state = RTMP_STATE_DONE, client_bytes_left = 1,
            server_bytes_left = 0, swfUrl = None, pageUrl = None\<rparr>,
          hsession = None, scan_http_host_url_flag = False, session_packet_count = 0\<rparr>
        APP_ID_FROM_INITIATOR [(0, [0]), (1, [3, 0, 0, 0, 0, 0, 23, 20, 0, 0, 0, 0])])
     = SERVICE_NOMATCH
   \<and> client_state (flow_view (snd (deliver
        \<lparr>rtmp_max_packets = 5, referred_appId_disabled = False\<rparr>
        \<lparr>flow_data = Some \<lparr>client_state = RTMP_STATE_SENDING_HANDSHAKE2,
            server_state = RTMP_STATE_DONE, client_bytes_left = 1,
            server_bytes_left = 0, swfUrl = None, pageUrl = None\<rparr>,
          hsession = None, scan_http_host_url_flag = False, session_packet_count = 0\<rparr>
        APP_ID_FROM_INITIATOR [(0, [0]), (1, [3, 0, 0, 0, 0, 0, 23, 20, 0, 0, 0, 0])])))
     = RTMP_STATE_SENT_HANDSHAKE2
   \<and> undelivered \<lparr>rtmp_max_packets = 5, referred_appId_disabled = False\<rparr>
        \<lparr>flow_data = Some \<lparr>client_state = RTMP_STATE_SENDING_HANDSHAKE2,
            server_state = RTMP_STATE_DONE, client_bytes_left = 1,
            server_bytes_left = 0, swfUrl = None, pageUrl = None\<rparr>,
          hsession = None, scan_http_host_url_flag = False, session_packet_count = 0\<rparr>
        APP_ID_FROM_INITIATOR [(0, [0]), (1, [3, 0, 0, 0, 0, 0, 23, 20, 0, 0, 0, 0])]
     = []
   \<and> code (rtmp_validate \<lparr>rtmp_max_packets = 5, referred_appId_disabled = False\<rparr>
        \<lparr>flow_data = Some \<lparr>client_state = RTMP_STATE_SENDING_HANDSHAKE2,
            server_state = RTMP_STATE_DONE, client_bytes_left = 1,
            server_bytes_left = 0, swfUrl = None, pageUrl = None\<rparr>,
          hsession = None, scan_http_host_url_flag = False, session_packet_count = 4\<rparr>
        [0, 3, 0, 0, 0, 0, 0, 23, 20, 0, 0, 0, 0] APP_ID_FROM_INITIATOR)
     = SERVICE_NOMATCH
   \<and> fst (deliver \<lparr>rtmp_max_packets = 5, referred_appId_disabled = False\<rparr>
        \<lparr>flow_data = None, hsession = None, scan_http_host_url_flag = False,
         session_packet_count = 0\<rparr>
        APP_ID_FROM_INITIATOR [(0, [3]), (1, [0, 0])]) = SERVICE_INPROCESS
   \<and> code (rtmp_validate \<lparr>rtmp_max_packets = 5, referred_appId_disabled = False\<rparr>
        \<lparr>flow_data = None, hsession = None, scan_http_host_url_flag = False,
         session_packet_count = 4\<rparr>
        [3, 0, 0] APP_ID_FROM_INITIATOR) = SERVICE_INPROCESS
   \<and> fst (deliver \<lparr>rtmp_max_packets = 5, referred_appId_disabled = False\<rparr>
        \<lparr>flow_data = None, hsession = None, scan_http_host_url_flag = False,
         session_packet_count = 0\<rparr>
        APP_ID_FROM_RESPONDER [(0, [3]), (1, [0, 0])])
     = code (rtmp_validate \<lparr>rtmp_max_packets = 5, referred_appId_disabled = False\<rparr>
        \<lparr>flow_data = None, hsession = None, scan_http_host_url_flag = False,
         session_packet_count = 4\<rparr>
        [3, 0, 0] APP_ID_FROM_RESPONDER)"
proof -
  let ?config = "\<lparr>rtmp_max_packets = 5, referred_appId_disabled = False\<rparr>"
  let ?new = "\<lparr>flow_data = None, hsession = None, scan_http_host_url_flag = False,
         session_packet_count = 0\<rparr>"
  let ?c0 = "calloc_ServiceRTMPData\<lparr>client_state := RTMP_STATE_SENT_HANDSHAKE0\<rparr>"
  let ?c1 = "calloc_ServiceRTMPData\<lparr>client_state := RTMP_STATE_SENT_HANDSHAKE1,
      client_bytes_left := 1536\<rparr>"
  let ?guard = "[(0, [3]), (1, replicate 1536 0), (2, [0]), (3, [0])] :: (nat \<times> u8 list) list"
  let ?s1 = "\<lparr>client_state = RTMP_STATE_SENDING_HANDSHAKE2,
            server_state = RTMP_STATE_DONE, client_bytes_left = 1,
            server_bytes_left = 0, swfUrl = None, pageUrl = None\<rparr>"
  let ?s2 = "?s1\<lparr>client_state := RTMP_STATE_SENT_HANDSHAKE2\<rparr>"
  let ?mid = "\<lparr>flow_data = Some ?s1, hsession = None, scan_http_host_url_flag = False,
      session_packet_count = 0\<rparr>"
  let ?header = "[3, 0, 0, 0, 0, 0, 23, 20, 0, 0, 0, 0] :: u8 list"
  let ?cut = "[(0, [0]), (1, ?header)] :: (nat \<times> u8 list) list"
  let ?short = "[(0, [3]), (1, [0, 0])] :: (nat \<times> u8 list) list"
  have single: "4 < rtmp_max_packets ?config"
    by simp
  have ceil_guard: "\<forall>(n, chunk) \<in> set ?guard. n < rtmp_max_packets ?config"
    and size_guard: "length (concat (map snd ?guard)) < 65536"
    and cat_guard: "concat (map snd ?guard) = 3 # replicate 1536 0 @ [0, 0]"
    by simp_all
  have ceil_cut: "\<forall>(n, chunk) \<in> set ?cut. n < rtmp_max_packets ?config"
    and size_cut: "length (concat (map snd ?cut)) < 65536"
    and cat_cut: "concat (map snd ?cut) = [0, 3, 0, 0, 0, 0, 0, 23, 20, 0, 0, 0, 0]"
    by simp_all
  have ceil_short: "\<forall>(n, chunk) \<in> set ?short. n < rtmp_max_packets ?config"
    and size_short: "length (concat (map snd ?short)) < 65536"
    and cat_short: "concat (map snd ?short) = [3, 0, 0]"
    by simp_all
  have g1: "rtmp_validate ?config ?new [3] APP_ID_FROM_INITIATOR
      = validate_inprocess (?new\<lparr>flow_data := Some ?c0\<rparr>)"
    by (simp add: rtmp_validate_def consume_packet_def client_loop_step client_loop_Nil
        client_switch_def client_case_INIT_def RTMP_VER_3_def calloc_ServiceRTMPData_def)
  have g2: "rtmp_validate ?config (?new\<lparr>flow_data := Some ?c0, session_packet_count := 1\<rparr>)
        (replicate 1536 0) APP_ID_FROM_INITIATOR
      = validate_inprocess (?new\<lparr>flow_data := Some ?c1, session_packet_count := 1\<rparr>)"
    by (simp add: rtmp_validate_def consume_packet_def client_loop_step client_loop_Nil
        client_switch_def client_case_SENT_HANDSHAKE0_def client_case_SENDING_HANDSHAKE1_def
        RTMP_HANDSHAKE1_SIZE_def calloc_ServiceRTMPData_def)
  have g3: "rtmp_validate ?config (?new\<lparr>flow_data := Some ?c1, session_packet_count := 2\<rparr>)
        [0] APP_ID_FROM_INITIATOR
      = validate_fail ?c1 (?new\<lparr>flow_data := Some ?c1, session_packet_count := 2\<rparr>)"
    by (simp add: rtmp_validate_def consume_packet_def client_loop_step client_loop_Nil
        client_switch_def client_case_SENT_HANDSHAKE1_def calloc_ServiceRTMPData_def Let_def)
  have run_guard: "deliver ?config ?new APP_ID_FROM_INITIATOR ?guard
      = (SERVICE_NOMATCH, ?new\<lparr>flow_data := Some ?c1, session_packet_count := 2\<rparr>)"
    using g1 g2 g3
    by (simp add: validate_inprocess_def validate_fail_def calloc_ServiceRTMPData_def)
  have left_guard: "undelivered ?config ?new APP_ID_FROM_INITIATOR ?guard = [(3, [0])]"
    using g1 g2 g3
    by (simp add: validate_inprocess_def validate_fail_def calloc_ServiceRTMPData_def)
  from run_guard have code_guard:
      "fst (deliver ?config ?new APP_ID_FROM_INITIATOR ?guard) = SERVICE_NOMATCH"
    and state_guard:
      "client_state (flow_view (snd (deliver ?config ?new APP_ID_FROM_INITIATOR ?guard)))
       = RTMP_STATE_SENT_HANDSHAKE1"
    by (simp_all add: flow_view_def calloc_ServiceRTMPData_def)
  have "fst (deliver ?config ?new APP_ID_FROM_INITIATOR ?guard)
      = code (rtmp_validate ?config (?new\<lparr>session_packet_count := 4\<rparr>)
          (concat (map snd ?guard)) APP_ID_FROM_INITIATOR)"
    using ceil_guard single size_guard
  proof (rule chunked_delivery_classification)
    show "\<not> (APP_ID_FROM_INITIATOR = APP_ID_FROM_INITIATOR
        \<and> fst (deliver ?config ?new APP_ID_FROM_INITIATOR ?guard) = SERVICE_NOMATCH
        \<and> client_state (flow_view (snd (deliver ?config ?new APP_ID_FROM_INITIATOR ?guard)))
            = RTMP_STATE_SENT_HANDSHAKE2
        \<and> concat (map snd (undelivered ?config ?new APP_ID_FROM_INITIATOR ?guard)) \<noteq> [])"
      unfolding state_guard by simp
  qed
  then have one_guard: "code (rtmp_validate ?config (?new\<lparr>session_packet_count := 4\<rparr>)
          (3 # replicate 1536 0 @ [0, 0]) APP_ID_FROM_INITIATOR) = SERVICE_NOMATCH"
    unfolding cat_guard code_guard by simp
  have c1: "rtmp_validate ?config ?mid [0] APP_ID_FROM_INITIATOR
      = validate_inprocess (?mid\<lparr>flow_data := Some ?s2\<rparr>)"
    by (simp add: rtmp_validate_def consume_packet_def client_loop_step client_loop_Nil
        client_switch_def client_case_SENDING_HANDSHAKE2_def)
  have header_only: "parse_rtmp_message_header ?header = Some (3, 23, 20, [])"
    by (simp add: parse_rtmp_message_header_def parse_rtmp_chunk_basic_header_def)
  have no_body: "unchunk_rtmp_message_body [] 3 23 [] = None"
    by (simp add: unchunk_rtmp_message_body.simps RTMP_CHUNK_SIZE_def)
  have part: "parse_rtmp_message ?header ?s2 = (False, ?header, ?s2)"
    by (simp only: parse_rtmp_message_def header_only no_body option.case prod.case)
       (simp add: RTMP_AMF0_COMMAND_MESSAGE_ID_def)
  have cut: "client_loop ?s2 ?header = Inl ?s2"
    by (subst client_loop.simps)
       (simp add: client_switch_def client_case_SENT_HANDSHAKE2_def part[simplified])
  have c2: "rtmp_validate ?config (?mid\<lparr>flow_data := Some ?s2, session_packet_count := 1\<rparr>)
        ?header APP_ID_FROM_INITIATOR
      = validate_fail ?s2 (?mid\<lparr>flow_data := Some ?s2, session_packet_count := 1\<rparr>)"
    by (simp add: rtmp_validate_def consume_packet_def cut[simplified] Let_def)
  have run_cut: "deliver ?config ?mid APP_ID_FROM_INITIATOR ?cut
      = (SERVICE_NOMATCH, ?mid\<lparr>flow_data := Some ?s2, session_packet_count := 1\<rparr>)"
    using c1 c2 by (simp add: validate_inprocess_def validate_fail_def)
  have left_cut: "undelivered ?config ?mid APP_ID_FROM_INITIATOR ?cut = []"
    using c1 c2 by (simp add: validate_inprocess_def validate_fail_def)
  from run_cut have code_cut:
      "fst (deliver ?config ?mid APP_ID_FROM_INITIATOR ?cut) = SERVICE_NOMATCH"
    and state_cut:
      "client_state (flow_view (snd (deliver ?config ?mid APP_ID_FROM_INITIATOR ?cut)))
       = RTMP_STATE_SENT_HANDSHAKE2"
    by (simp_all add: flow_view_def)
  have "fst (deliver ?config ?mid APP_ID_FROM_INITIATOR ?cut)
      = code (rtmp_validate ?config (?mid\<lparr>session_packet_count := 4\<rparr>)
          (concat (map snd ?cut)) APP_ID_FROM_INITIATOR)"
    using ceil_cut single size_cut
  proof (rule chunked_delivery_classification)
    show "\<not> (APP_ID_FROM_INITIATOR = APP_ID_FROM_INITIATOR
        \<and> fst (deliver ?config ?mid APP_ID_FROM_INITIATOR ?cut) = SERVICE_NOMATCH
        \<and> client_state (flow_view (snd (deliver ?config ?mid APP_ID_FROM_INITIATOR ?cut)))
            = RTMP_STATE_SENT_HANDSHAKE2
        \<and> concat (map snd (undelivered ?config ?mid APP_ID_FROM_INITIATOR ?cut)) \<noteq> [])"
      unfolding left_cut by simp
  qed
  then have one_cut: "code (rtmp_validate ?config (?mid\<lparr>session_packet_count := 4\<rparr>)
          [0, 3, 0, 0, 0, 0, 0, 23, 20, 0, 0, 0, 0] APP_ID_FROM_INITIATOR) = SERVICE_NOMATCH"
    unfolding cat_cut code_cut by simp
  have second: "code (rtmp_validate ?config
        (?new\<lparr>flow_data := Some ?c0, session_packet_count := 1\<rparr>) [0, 0]
        APP_ID_FROM_INITIATOR) = SERVICE_INPROCESS"
    by (simp add: rtmp_validate_def consume_packet_def client_loop_step client_loop_Nil
        client_switch_def client_case_SENT_HANDSHAKE0_def client_case_SENDING_HANDSHAKE1_def
        RTMP_HANDSHAKE1_SIZE_def calloc_ServiceRTMPData_def)
  have code_short: "fst (deliver ?config ?new APP_ID_FROM_INITIATOR ?short) = SERVICE_INPROCESS"
    using second by (simp add: g1 validate_inprocess_def)
  have "fst (deliver ?config ?new APP_ID_FROM_INITIATOR ?short)
      = code (rtmp_validate ?config (?new\<lparr>session_packet_count := 4\<rparr>)
          (concat (map snd ?short)) APP_ID_FROM_INITIATOR)"
    using ceil_short single size_short
  proof (rule chunked_delivery_classification)
    show "\<not> (APP_ID_FROM_INITIATOR = APP_ID_FROM_INITIATOR
        \<and> fst (deliver ?config ?new APP_ID_FROM_INITIATOR ?short) = SERVICE_NOMATCH
        \<and> client_state (flow_view (snd (deliver ?config ?new APP_ID_FROM_INITIATOR ?short)))
            = RTMP_STATE_SENT_HANDSHAKE2
        \<and> concat (map snd (undelivered ?config ?new APP_ID_FROM_INITIATOR ?short)) \<noteq> [])"
      unfolding code_short by simp
  qed
  then have one_short: "code (rtmp_validate ?config (?new\<lparr>session_packet_count := 4\<rparr>)
          [3, 0, 0] APP_ID_FROM_INITIATOR) = SERVICE_INPROCESS"
    unfolding cat_short code_short by simp
  have "fst (deliver ?config ?new APP_ID_FROM_RESPONDER ?short)
      = code (rtmp_validate ?config (?new\<lparr>session_packet_count := 4\<rparr>)
          (concat (map snd ?short)) APP_ID_FROM_RESPONDER)"
    using ceil_short single size_short
    by (rule chunked_delivery_classification) simp
  then have server: "fst (deliver ?config ?new APP_ID_FROM_RESPONDER ?short)
      = code (rtmp_validate ?config (?new\<lparr>session_packet_count := 4\<rparr>)
          [3, 0, 0] APP_ID_FROM_RESPONDER)"
    unfolding cat_short .
  have all: "list_all (\<lambda>(n, chunk). n < rtmp_max_packets ?config) ?guard"
    by simp
  have new4: "?new\<lparr>session_packet_count := 4\<rparr>
      = \<lparr>flow_data = None, hsession = None, scan_http_host_url_flag = False,
         session_packet_count = 4\<rparr>"
    and mid4: "?mid\<lparr>session_packet_count := 4\<rparr>
      = \<lparr>flow_data = Some ?s1, hsession = None, scan_http_host_url_flag = False,
         session_packet_count = 4\<rparr>"
    by simp_all
  from all single size_guard code_guard state_guard left_guard one_guard[unfolded new4]
    code_cut state_cut left_cut one_cut[unfolded mid4]
    code_short one_short[unfolded new4] server[unfolded new4]
  show ?thesis by (intro conjI)
qed

text \<open>
  C1 as stated fails.  The client's handshake is complete and the server side is
  done (the state a new flow is in after the client's C0 and C1, the server's
  S0, S1 and S2 and the client's C2, which the first conjunct computes), and the
  packet count is below the ceiling.  A well-formed connect message in one
  packet from the client is classified as success.  The same bytes in two
  packets, the twelve bytes of the chunk header first, are classified as
  failure by the first call.
\<close>

theorem split_message_fails:
  "snd (rtmp_calls \<lparr>rtmp_max_packets = 5, referred_appId_disabled = False\<rparr>
      \<lparr>flow_data = None, hsession = None, scan_http_host_url_flag = False,
       session_packet_count = 0\<rparr>
      [(0, 3 # replicate 1536 0, APP_ID_FROM_INITIATOR),
       (0, 3 # replicate 3072 0, APP_ID_FROM_RESPONDER),
       (0, replicate 1536 0, APP_ID_FROM_INITIATOR)])
     = \<lparr>flow_data = Some \<lparr>client_state = RTMP_STATE_SENT_HANDSHAKE2,
          server_state = RTMP_STATE_DONE, client_bytes_left = 1536,
          server_bytes_left = 1536, swfUrl = None, pageUrl = None\<rparr>,
        hsession = None, scan_http_host_url_flag = False, session_packet_count = 0\<rparr>
   \<and> code (rtmp_validate \<lparr>rtmp_max_packets = 5, referred_appId_disabled = False\<rparr>
        \<lparr>flow_data = Some \<lparr>client_state = RTMP_STATE_SENT_HANDSHAKE2,
            server_state = RTMP_STATE_DONE, client_bytes_left = 1536,
            server_bytes_left = 1536, swfUrl = None, pageUrl = None\<rparr>,
          hsession = None, scan_http_host_url_flag = False, session_packet_count = 0\<rparr>
        ([3, 0, 0, 0, 0, 0, 23, 20, 0, 0, 0, 0]
         @ [2, 0, 7, 99, 111, 110, 110, 101, 99, 116, 0, 0, 0, 0, 0, 0, 0, 0, 0, 3, 0, 0, 9])
        APP_ID_FROM_INITIATOR) = SERVICE_SUCCESS
   \<and> fst (deliver \<lparr>rtmp_max_packets = 5, referred_appId_disabled = False\<rparr>
        \<lparr>flow_data = Some \<lparr>client_state = RTMP_STATE_SENT_HANDSHAKE2,
            server_state = RTMP_STATE_DONE, client_bytes_left = 1536,
            server_bytes_left = 1536, swfUrl = None, pageUrl = None\<rparr>,
          hsession = None, scan_http_host_url_flag = False, session_packet_count = 0\<rparr>
        APP_ID_FROM_INITIATOR
        [(0, [3, 0, 0, 0, 0, 0, 23, 20, 0, 0, 0, 0]),
         (0, [2, 0, 7, 99, 111, 110, 110, 101, 99, 116, 0, 0, 0, 0, 0, 0, 0, 0, 0, 3, 0, 0, 9])])
     = SERVICE_NOMATCH"
proof -
  let ?config = "\<lparr>rtmp_max_packets = 5, referred_appId_disabled = False\<rparr>"
  let ?new = "\<lparr>flow_data = None, hsession = None, scan_http_host_url_flag = False,
       session_packet_count = 0\<rparr>"
  let ?st = "\<lparr>client_state = RTMP_STATE_SENT_HANDSHAKE2,
          server_state = RTMP_STATE_DONE, client_bytes_left = 1536,
          server_bytes_left = 1536, swfUrl = None, pageUrl = None\<rparr>"
  let ?asd = "\<lparr>flow_data = Some ?st, hsession = None, scan_http_host_url_flag = False,
       session_packet_count = 0\<rparr>"
  let ?header = "[3, 0, 0, 0, 0, 0, 23, 20, 0, 0, 0, 0] :: u8 list"
  let ?body = "[2, 0, 7, 99, 111, 110, 110, 101, 99, 116, 0, 0, 0, 0, 0, 0, 0, 0, 0, 3, 0, 0, 9]
      :: u8 list"
  let ?c1 = "calloc_ServiceRTMPData\<lparr>client_state := RTMP_STATE_SENT_HANDSHAKE1,
      client_bytes_left := 1536\<rparr>"
  let ?c2 = "?c1\<lparr>server_state := RTMP_STATE_DONE, server_bytes_left := 1536\<rparr>"
  have call1: "rtmp_validate ?config ?new (3 # replicate 1536 0) APP_ID_FROM_INITIATOR
      = validate_inprocess (?new\<lparr>flow_data := Some ?c1\<rparr>)"
    by (simp add: rtmp_validate_def consume_packet_def client_loop_step client_loop_Nil
        client_switch_def client_case_INIT_def client_case_SENT_HANDSHAKE0_def
        client_case_SENDING_HANDSHAKE1_def RTMP_VER_3_def RTMP_HANDSHAKE1_SIZE_def
        calloc_ServiceRTMPData_def)
  have call2: "rtmp_validate ?config (?new\<lparr>flow_data := Some ?c1\<rparr>)
        (3 # replicate 3072 0) APP_ID_FROM_RESPONDER
      = validate_inprocess (?new\<lparr>flow_data := Some ?c2\<rparr>)"
    by (simp add: rtmp_validate_def consume_packet_def server_loop_step server_loop_Nil
        server_switch_def server_case_INIT_def server_case_SENT_HANDSHAKE0_def
        server_case_SENDING_HANDSHAKE1_def server_case_SENT_HANDSHAKE1_def
        server_case_SENDING_HANDSHAKE2_def server_case_SENT_HANDSHAKE2_def
        server_case_DONE_def RTMP_VER_3_def RTMP_HANDSHAKE1_SIZE_def RTMP_HANDSHAKE2_SIZE_def
        calloc_ServiceRTMPData_def)
  have call3: "rtmp_validate ?config (?new\<lparr>flow_data := Some ?c2\<rparr>)
        (replicate 1536 0) APP_ID_FROM_INITIATOR
      = validate_inprocess ?asd"
    by (simp add: rtmp_validate_def consume_packet_def client_loop_step client_loop_Nil
        client_switch_def client_case_SENT_HANDSHAKE1_def client_case_SENDING_HANDSHAKE2_def
        RTMP_HANDSHAKE2_SIZE_def calloc_ServiceRTMPData_def)
  have reach: "snd (rtmp_calls ?config ?new
      [(0, 3 # replicate 1536 0, APP_ID_FROM_INITIATOR),
       (0, 3 # replicate 3072 0, APP_ID_FROM_RESPONDER),
       (0, replicate 1536 0, APP_ID_FROM_INITIATOR)]) = ?asd"
    using call1 call2 call3 by (simp add: validate_inprocess_def split: prod.splits)
  have body: "parse_connect_command ?body s = (True, s)" for s
    by (simp add: parse_connect_command_def command_object_loop_end_marker strncmp_numeral
        RTMP_COMMAND_TYPE_CONNECT_def AMF0_TYPE_STRING_def AMF0_TYPE_NUMBER_def
        AMF0_TYPE_OBJECT_def)
  have header: "parse_rtmp_message_header (?header @ ?body) = Some (3, 23, 20, ?body)"
    by (simp add: parse_rtmp_message_header_def parse_rtmp_chunk_basic_header_def)
  have unchunk: "unchunk_rtmp_message_body ?body 3 23 [] = Some (?body, [])"
    by (simp add: unchunk_rtmp_message_body.simps RTMP_CHUNK_SIZE_def)
  have message: "parse_rtmp_message (?header @ ?body) ?st = (True, [], ?st)"
    by (simp only: parse_rtmp_message_def header unchunk option.case prod.case)
       (simp add: RTMP_AMF0_COMMAND_MESSAGE_ID_def body)
  have whole: "client_loop ?st (?header @ ?body) = Inr (?st\<lparr>client_state := RTMP_STATE_DONE\<rparr>)"
    by (subst client_loop.simps)
       (simp add: client_switch_def client_case_SENT_HANDSHAKE2_def client_case_DONE_def
          message[simplified] client_loop.simps[of _ "[]"])
  have one: "code (rtmp_validate ?config ?asd (?header @ ?body) APP_ID_FROM_INITIATOR)
      = SERVICE_SUCCESS"
    by (simp add: rtmp_validate_def consume_packet_def whole[simplified])
  have header_only: "parse_rtmp_message_header ?header = Some (3, 23, 20, [])"
    by (simp add: parse_rtmp_message_header_def parse_rtmp_chunk_basic_header_def)
  have no_body: "unchunk_rtmp_message_body [] 3 23 [] = None"
    by (simp add: unchunk_rtmp_message_body.simps RTMP_CHUNK_SIZE_def)
  have part: "parse_rtmp_message ?header ?st = (False, ?header, ?st)"
    by (simp only: parse_rtmp_message_def header_only no_body option.case prod.case)
       (simp add: RTMP_AMF0_COMMAND_MESSAGE_ID_def)
  have cut: "client_loop ?st ?header = Inl ?st"
    by (subst client_loop.simps)
       (simp add: client_switch_def client_case_SENT_HANDSHAKE2_def part)
  have two: "fst (deliver ?config ?asd APP_ID_FROM_INITIATOR [(0, ?header), (0, ?body)])
      = SERVICE_NOMATCH"
    by (simp add: rtmp_validate_def consume_packet_def cut)
  from reach one two show ?thesis by (intro conjI)
qed

subsection \<open>How the property loop ends\<close>

lemma be16_code: "push_bit 8 (unat hi) + unat lo = be16 hi lo"
  by (simp add: be16_def push_bit_eq_mult)

lemma duplicate_string_layout:
  "duplicate_string data = Some (str, rest) \<longleftrightarrow> amf0_read_string data str rest"
proof
  assume d: "duplicate_string data = Some (str, rest)"
  then have "3 \<le> length data"
    by (auto simp: duplicate_string_def split: if_splits)
  then obtain tag hi lo t where data: "data = tag # hi # lo # t"
    by (cases data rule: list_upto3_cases) auto
  from d have "tag = 0x02" and "0 < be16 hi lo" and "be16 hi lo \<le> length t"
    and "str = take (be16 hi lo) t" and "rest = drop (be16 hi lo) t"
    by (auto simp: duplicate_string_def data be16_code AMF0_TYPE_STRING_def Let_def
        split: if_splits)
  then show "amf0_read_string data str rest"
    by (simp add: data amf0_read_string.intros)
next
  assume "amf0_read_string data str rest"
  then show "duplicate_string data = Some (str, rest)"
    by (cases rule: amf0_read_string.cases)
       (simp add: duplicate_string_def be16_code AMF0_TYPE_STRING_def Let_def)
qed

lemma skip_property_value_layout:
  "skip_property_value data = Some rest \<longleftrightarrow> amf0_skip_value data rest"
proof
  assume s: "skip_property_value data = Some rest"
  then obtain tag t where data: "data = tag # t"
    by (cases data) (auto simp: skip_property_value_def)
  show "amf0_skip_value data rest"
  proof (cases "tag = 0x00")
    case True
    with s show ?thesis
      by (auto simp: skip_property_value_def data AMF0_TYPE_NUMBER_def
          split: if_splits intro: amf0_skip_value.number)
  next
    case not_number: False
    show ?thesis
    proof (cases "tag = 0x01")
      case True
      with s obtain b where "t = b # rest"
        by (cases t)
           (auto simp: skip_property_value_def data AMF0_TYPE_NUMBER_def AMF0_TYPE_BOOLEAN_def
              split: if_splits)
      with True show ?thesis
        by (simp add: data amf0_skip_value.boolean)
    next
      case not_boolean: False
      with s not_number have tag: "tag = 0x02" and "2 \<le> length t"
        by (auto simp: skip_property_value_def data AMF0_TYPE_NUMBER_def AMF0_TYPE_BOOLEAN_def
            AMF0_TYPE_STRING_def split: if_splits)
      then obtain hi lo u where t: "t = hi # lo # u"
        by (cases t rule: list_upto3_cases) auto
      from s tag have "be16 hi lo \<le> length u" and "rest = drop (be16 hi lo) u"
        by (auto simp: skip_property_value_def data t be16_code AMF0_TYPE_NUMBER_def
            AMF0_TYPE_BOOLEAN_def AMF0_TYPE_STRING_def Let_def split: if_splits)
      with tag show ?thesis
        by (simp add: data t amf0_skip_value.string)
    qed
  qed
next
  assume "amf0_skip_value data rest"
  then show "skip_property_value data = Some rest"
    by (cases rule: amf0_skip_value.cases)
       (simp_all add: skip_property_value_def be16_code AMF0_TYPE_NUMBER_def
          AMF0_TYPE_BOOLEAN_def AMF0_TYPE_STRING_def Let_def)
qed

lemma strncmp_Cons:
  "strncmp (a # s1) (b # s2) (Suc n) = 0 \<longleftrightarrow> a = b \<and> (a = 0 \<or> strncmp s1 s2 n = 0)"
proof (cases "a = b")
  case True
  then show ?thesis by (simp add: Let_def)
next
  case False
  then have "uint a \<noteq> uint b" by (simp add: word_uint_eq_iff)
  with False show ?thesis by (simp add: Let_def)
qed

lemma strncmp_Cons_numeral:
  "strncmp (a # s1) (b # s2) (numeral k) = 0
   \<longleftrightarrow> a = b \<and> (a = 0 \<or> strncmp s1 s2 (pred_numeral k) = 0)"
  using strncmp_Cons[of a s1 b s2 "pred_numeral k"] by (simp add: numeral_eq_Suc)

lemma strncmp_swfUrl:
  assumes "6 \<le> length data"
  shows "strncmp data RTMP_PROPERTY_KEY_SWFURL RTMP_PROPERTY_KEY_SWFURL_LEN = 0
         \<longleftrightarrow> take 6 data = map of_char ''swfUrl''"
proof -
  from assms obtain a b c d e f t where "data = a # b # c # d # e # f # t"
    by (auto simp: numeral_eq_Suc length_Suc_conv Suc_le_length_iff)
  then show ?thesis
    by (auto simp add: RTMP_PROPERTY_KEY_SWFURL_def RTMP_PROPERTY_KEY_SWFURL_LEN_def
        strncmp_Cons_numeral strncmp_Cons simp del: strncmp.simps(2))
qed

lemma strncmp_pageUrl:
  assumes "7 \<le> length data"
  shows "strncmp data RTMP_PROPERTY_KEY_PAGEURL RTMP_PROPERTY_KEY_PAGEURL_LEN = 0
         \<longleftrightarrow> take 7 data = map of_char ''pageUrl''"
proof -
  from assms obtain a b c d e f g t where "data = a # b # c # d # e # f # g # t"
    by (auto simp: numeral_eq_Suc length_Suc_conv Suc_le_length_iff)
  then show ?thesis
    by (auto simp add: RTMP_PROPERTY_KEY_PAGEURL_def RTMP_PROPERTY_KEY_PAGEURL_LEN_def
        strncmp_Cons_numeral strncmp_Cons simp del: strncmp.simps(2))
qed

lemma key_is_swfUrl:
  assumes "n \<le> length t"
  shows "n = RTMP_PROPERTY_KEY_SWFURL_LEN
           \<and> strncmp t RTMP_PROPERTY_KEY_SWFURL RTMP_PROPERTY_KEY_SWFURL_LEN = 0
         \<longleftrightarrow> take n t = map of_char ''swfUrl''"
proof (cases "n = 6")
  case True
  with assms strncmp_swfUrl[of t] show ?thesis
    by (simp add: RTMP_PROPERTY_KEY_SWFURL_LEN_def)
next
  case False
  with assms have "length (take n t) \<noteq> length (map of_char ''swfUrl'' :: u8 list)"
    by simp
  then have "take n t \<noteq> map of_char ''swfUrl''"
    by metis
  with False show ?thesis
    by (simp add: RTMP_PROPERTY_KEY_SWFURL_LEN_def)
qed

lemma key_is_pageUrl:
  assumes "n \<le> length t"
  shows "n = RTMP_PROPERTY_KEY_PAGEURL_LEN
           \<and> strncmp t RTMP_PROPERTY_KEY_PAGEURL RTMP_PROPERTY_KEY_PAGEURL_LEN = 0
         \<longleftrightarrow> take n t = map of_char ''pageUrl''"
proof (cases "n = 7")
  case True
  with assms strncmp_pageUrl[of t] show ?thesis
    by (simp add: RTMP_PROPERTY_KEY_PAGEURL_LEN_def)
next
  case False
  with assms have "length (take n t) \<noteq> length (map of_char ''pageUrl'' :: u8 list)"
    by simp
  then have "take n t \<noteq> map of_char ''pageUrl''"
    by metis
  with False show ?thesis
    by (simp add: RTMP_PROPERTY_KEY_PAGEURL_LEN_def)
qed

lemma command_object_property_key:
  assumes "0 < be16 hi lo" and "be16 hi lo \<le> length t"
  shows "command_object_property (hi # lo # t) ss =
     (if swfUrl ss = None \<and> take (be16 hi lo) t = map of_char ''swfUrl'' then
        (case duplicate_string (drop (be16 hi lo) t) of
           None \<Rightarrow> Property_fail (ss\<lparr>swfUrl := None\<rparr>)
         | Some (str, d) \<Rightarrow> Property_next (ss\<lparr>swfUrl := Some str\<rparr>) d)
      else if pageUrl ss = None \<and> take (be16 hi lo) t = map of_char ''pageUrl'' then
        (case duplicate_string (drop (be16 hi lo) t) of
           None \<Rightarrow> Property_fail (ss\<lparr>pageUrl := None\<rparr>)
         | Some (str, d) \<Rightarrow> Property_next (ss\<lparr>pageUrl := Some str\<rparr>) d)
      else
        (case skip_property_value (drop (be16 hi lo) t) of
           None \<Rightarrow> Property_fail ss
         | Some d \<Rightarrow> Property_next ss d))"
proof -
  from assms have len: "\<not> length (hi # lo # t) < 3" by (cases t) simp_all
  have unfold: "command_object_property (hi # lo # t) ss =
     (if swfUrl ss = None \<and> be16 hi lo = RTMP_PROPERTY_KEY_SWFURL_LEN
         \<and> strncmp t RTMP_PROPERTY_KEY_SWFURL RTMP_PROPERTY_KEY_SWFURL_LEN = 0 then
        (case duplicate_string (drop (be16 hi lo) t) of
           None \<Rightarrow> Property_fail (ss\<lparr>swfUrl := None\<rparr>)
         | Some (str, d) \<Rightarrow> Property_next (ss\<lparr>swfUrl := Some str\<rparr>) d)
      else if pageUrl ss = None \<and> be16 hi lo = RTMP_PROPERTY_KEY_PAGEURL_LEN
         \<and> strncmp t RTMP_PROPERTY_KEY_PAGEURL RTMP_PROPERTY_KEY_PAGEURL_LEN = 0 then
        (case duplicate_string (drop (be16 hi lo) t) of
           None \<Rightarrow> Property_fail (ss\<lparr>pageUrl := None\<rparr>)
         | Some (str, d) \<Rightarrow> Property_next (ss\<lparr>pageUrl := Some str\<rparr>) d)
      else
        (case skip_property_value (drop (be16 hi lo) t) of
           None \<Rightarrow> Property_fail ss
         | Some d \<Rightarrow> Property_next ss d))"
    unfolding command_object_property_def Let_def
    using assms len by (simp add: be16_code)
  show ?thesis
    unfolding unfold
    using key_is_swfUrl[OF assms(2)] key_is_pageUrl[OF assms(2)]
    by simp
qed

lemma command_object_property_no_key:
  assumes "command_object_property data ss = Property_next ss' rest"
  obtains hi lo t where "data = hi # lo # t" "0 < be16 hi lo" "be16 hi lo \<le> length t"
proof -
  from assms have "3 \<le> length data"
    by (auto simp: command_object_property_def split: if_splits)
  then obtain hi lo b u where data: "data = hi # lo # b # u"
    by (cases data rule: list_upto3_cases) auto
  from assms have "0 < be16 hi lo" and "be16 hi lo \<le> length (b # u)"
    by (auto simp: command_object_property_def data be16_code Let_def split: if_splits)
  with data that[of hi lo "b # u"] show thesis by simp
qed

lemma command_object_property_layout:
  "command_object_property data ss = Property_next ss' rest
   \<longleftrightarrow> key_value_pair data ss ss' rest"
proof
  assume step: "command_object_property data ss = Property_next ss' rest"
  then obtain hi lo t where data: "data = hi # lo # t"
    and key: "0 < be16 hi lo" "be16 hi lo \<le> length t"
    by (rule command_object_property_no_key)
  let ?n = "be16 hi lo"
  show "key_value_pair data ss ss' rest"
  proof (cases "swfUrl ss = None \<and> take ?n t = map of_char ''swfUrl''")
    case True
    with step obtain str where "duplicate_string (drop ?n t) = Some (str, rest)"
      and "ss' = ss\<lparr>swfUrl := Some str\<rparr>"
      by (auto simp: data command_object_property_key[OF key] split: option.splits)
    with True key show ?thesis
      by (simp add: data duplicate_string_layout key_value_pair.swf_url)
  next
    case no_swf: False
    show ?thesis
    proof (cases "pageUrl ss = None \<and> take ?n t = map of_char ''pageUrl''")
      case True
      with step no_swf obtain str where "duplicate_string (drop ?n t) = Some (str, rest)"
        and "ss' = ss\<lparr>pageUrl := Some str\<rparr>"
        by (auto simp: data command_object_property_key[OF key] split: option.splits)
      with True key show ?thesis
        by (simp add: data duplicate_string_layout key_value_pair.page_url)
    next
      case no_page: False
      with step no_swf have "skip_property_value (drop ?n t) = Some rest" and same: "ss' = ss"
        by (auto simp: data command_object_property_key[OF key] split: option.splits)
      then have "amf0_skip_value (drop ?n t) rest"
        by (simp add: skip_property_value_layout)
      with key no_swf no_page show ?thesis
        unfolding data same by (intro key_value_pair.other) auto
    qed
  qed
next
  assume "key_value_pair data ss ss' rest"
  then show "command_object_property data ss = Property_next ss' rest"
  proof (cases rule: key_value_pair.cases)
    case (swf_url hi lo t str)
    then show ?thesis
      by (simp add: command_object_property_key duplicate_string_layout[symmetric])
  next
    case (page_url hi lo t str)
    from page_url(5) have "take (be16 hi lo) t \<noteq> map of_char ''swfUrl''"
      by simp
    with page_url show ?thesis
      by (simp add: command_object_property_key duplicate_string_layout[symmetric])
  next
    case (other hi lo t)
    then show ?thesis
      by (auto simp: command_object_property_key skip_property_value_layout[symmetric])
  qed
qed

lemma command_object_property_marker:
  "command_object_property data ss = Property_end ss'
   \<longleftrightarrow> (\<exists>rest. data = 0 # 0 # 0x09 # rest) \<and> ss' = ss"
proof
  assume e: "command_object_property data ss = Property_end ss'"
  then have "3 \<le> length data"
    by (auto simp: command_object_property_def split: if_splits)
  then obtain a b c rest where data: "data = a # b # c # rest"
    by (cases data rule: list_upto3_cases) auto
  from e show "(\<exists>rest. data = 0 # 0 # 0x09 # rest) \<and> ss' = ss"
    by (auto simp: command_object_property_def data Let_def AMF0_TYPE_OBJECT_END_def unat_eq_0
        split: if_splits option.splits)
next
  assume "(\<exists>rest. data = 0 # 0 # 0x09 # rest) \<and> ss' = ss"
  then show "command_object_property data ss = Property_end ss'"
    by (auto simp: command_object_property_def AMF0_TYPE_OBJECT_END_def)
qed

lemma command_object_property_bad_marker:
  assumes "b \<noteq> 0x09"
  shows "command_object_property (0 # 0 # b # rest) ss = Property_fail ss"
  using assms by (simp add: command_object_property_def AMF0_TYPE_OBJECT_END_def)

lemma command_object_loop_next:
  assumes "command_object_property data ss = Property_next ss' rest"
  shows "command_object_loop data ss
         = (if rest = [] then (True, ss') else command_object_loop rest ss')"
  using assms by (simp add: command_object_loop.simps[of data ss])

lemma property_scan_sound:
  assumes "property_scan data ss ss'"
  shows "command_object_loop data ss = (True, ss')"
  using assms
proof (induction rule: property_scan.induct)
  case (end_marker rest ss)
  show ?case by (rule command_object_loop_end_marker)
next
  case (exhausted data ss ss')
  then show ?case
    by (simp add: command_object_property_layout[symmetric] command_object_loop_next)
next
  case (pair data ss ss' rest ss'')
  then show ?case
    by (simp add: command_object_property_layout[symmetric] command_object_loop_next)
qed

lemma property_scan_complete:
  assumes "command_object_loop data ss = (True, ss')"
  shows "property_scan data ss ss'"
  using assms
proof (induction data ss rule: command_object_loop.induct)
  case (1 data ss)
  show ?case
  proof (cases "command_object_property data ss")
    case (Property_fail s)
    with "1.prems" show ?thesis by (simp add: command_object_loop.simps[of data ss])
  next
    case (Property_end s)
    from "1.prems" Property_end have "s = ss'"
      by (simp add: command_object_loop.simps[of data ss])
    with Property_end show ?thesis
      by (auto simp: command_object_property_marker intro: property_scan.end_marker)
  next
    case (Property_next s rest)
    then have kv: "key_value_pair data ss s rest"
      by (simp add: command_object_property_layout)
    show ?thesis
    proof (cases "rest = []")
      case True
      with "1.prems" Property_next have "s = ss'"
        by (simp add: command_object_loop_next)
      with kv True show ?thesis by (auto intro: property_scan.exhausted)
    next
      case False
      with "1.prems" Property_next have "command_object_loop rest s = (True, ss')"
        by (simp add: command_object_loop_next)
      with "1.IH"[OF Property_next] False have "property_scan rest s ss'" by simp
      with kv False show ?thesis by (rule property_scan.pair)
    qed
  qed
qed

text \<open>
  C9.  The loop returns success exactly for the scans that the spec describes,
  and with the flow data the spec gives: those that end at the end-of-object
  marker and those that run out of bytes right behind a complete key/value
  pair.  In particular a buffer that starts with the marker is a success
  whatever follows, a buffer that is one complete pair and nothing more is a
  success without any marker, and a key length of zero in front of any byte
  other than 0x09 is a failure.
\<close>

theorem property_loop_ends:
  "(command_object_loop data ss = (True, ss') \<longleftrightarrow> property_scan data ss ss')
   \<and> command_object_loop (0 # 0 # 0x09 # rest) ss = (True, ss)
   \<and> (key_value_pair data ss ss' [] \<longrightarrow> command_object_loop data ss = (True, ss'))
   \<and> (b \<noteq> 0x09 \<longrightarrow> command_object_loop (0 # 0 # b # rest) ss = (False, ss))"
proof (intro conjI impI)
  show "command_object_loop data ss = (True, ss') \<longleftrightarrow> property_scan data ss ss'"
    using property_scan_sound property_scan_complete by blast
  show "command_object_loop (0 # 0 # 0x09 # rest) ss = (True, ss)"
    by (rule command_object_loop_end_marker)
next
  assume "key_value_pair data ss ss' []"
  then show "command_object_loop data ss = (True, ss')"
    by (intro property_scan_sound property_scan.exhausted)
next
  assume "b \<noteq> 0x09"
  then show "command_object_loop (0 # 0 # b # rest) ss = (False, ss)"
    by (simp add: command_object_loop.simps[of "0 # 0 # b # rest"]
        command_object_property_bad_marker)
qed

theorem property_loop_ends_witness:
  "key_value_pair [0, 1, 97, 1, 0] calloc_ServiceRTMPData calloc_ServiceRTMPData []
   \<and> command_object_loop [0, 1, 97, 1, 0] calloc_ServiceRTMPData
       = (True, calloc_ServiceRTMPData)
   \<and> property_scan [0, 1, 97, 1, 0] calloc_ServiceRTMPData calloc_ServiceRTMPData
   \<and> key_value_pair [0, 6, 115, 119, 102, 85, 114, 108, 2, 0, 1, 120]
        calloc_ServiceRTMPData (calloc_ServiceRTMPData\<lparr>swfUrl := Some [120]\<rparr>) []
   \<and> command_object_loop [0, 6, 115, 119, 102, 85, 114, 108, 2, 0, 1, 120]
        calloc_ServiceRTMPData
       = (True, calloc_ServiceRTMPData\<lparr>swfUrl := Some [120]\<rparr>)
   \<and> (5 :: u8) \<noteq> 0x09
   \<and> command_object_loop [0, 0, 5] calloc_ServiceRTMPData = (False, calloc_ServiceRTMPData)
   \<and> command_object_loop [0, 0, 9] calloc_ServiceRTMPData = (True, calloc_ServiceRTMPData)
   \<and> command_object_loop [0, 1, 97] calloc_ServiceRTMPData = (False, calloc_ServiceRTMPData)
   \<and> \<not> property_scan [0, 1, 97] calloc_ServiceRTMPData calloc_ServiceRTMPData"
proof -
  let ?ss = calloc_ServiceRTMPData
  let ?got = "calloc_ServiceRTMPData\<lparr>swfUrl := Some [120]\<rparr>"
  let ?plain = "[0, 1, 97, 1, 0] :: u8 list"
  let ?swf = "[0, 6, 115, 119, 102, 85, 114, 108, 2, 0, 1, 120] :: u8 list"
  have "amf0_skip_value (0x01 # 0 # []) []"
    by (rule amf0_skip_value.boolean)
  then have kv1: "key_value_pair ?plain ?ss ?ss []"
    by (intro key_value_pair.other) (simp_all add: be16_def)
  have "amf0_read_string (0x02 # 0 # 1 # [120]) (take (be16 0 1) [120]) (drop (be16 0 1) [120])"
    by (rule amf0_read_string.intros) (simp_all add: be16_def)
  then have "amf0_read_string [2, 0, 1, 120] [120] []"
    by (simp add: be16_def)
  then have kv2: "key_value_pair ?swf ?ss ?got []"
    by (intro key_value_pair.swf_url) (simp_all add: be16_def calloc_ServiceRTMPData_def)
  have bad: "(5 :: u8) \<noteq> 0x09" by simp
  note t1 = property_loop_ends[of ?plain ?ss ?ss "[]" 5]
  note t2 = property_loop_ends[of ?swf ?ss ?got "[]" 5]
  note t3 = property_loop_ends[of "[0, 1, 97]" ?ss ?ss "[]" 5]
  have c1: "command_object_loop ?plain ?ss = (True, ?ss)" using t1 kv1 by blast
  have c2: "property_scan ?plain ?ss ?ss" using t1 c1 by blast
  have c3: "command_object_loop ?swf ?ss = (True, ?got)" using t2 kv2 by blast
  have c4: "command_object_loop [0, 0, 5] ?ss = (False, ?ss)" using t1 bad by blast
  have c5: "command_object_loop [0, 0, 9] ?ss = (True, ?ss)" using t1 by blast
  have c6: "command_object_loop [0, 1, 97] ?ss = (False, ?ss)"
    by (simp add: command_object_loop.simps[of "[0, 1, 97]"] command_object_property_def
        skip_property_value_def calloc_ServiceRTMPData_def RTMP_PROPERTY_KEY_SWFURL_LEN_def
        RTMP_PROPERTY_KEY_PAGEURL_LEN_def)
  have c7: "\<not> property_scan [0, 1, 97] ?ss ?ss" using t3 c6 by simp
  from kv1 c1 c2 kv2 c3 bad c4 c5 c6 c7 show ?thesis by (intro conjI)
qed

end
